theory Spec2Isabelle
  imports Main "HOL-Library.AList" "HOL-Library.Sublist"
begin

section \<open>Node's POSIX path functions\<close>

text \<open>
  The staged file system works on path strings through Node's \<open>path\<close> module
  (\<open>resolve\<close>, \<open>dirname\<close>, \<open>basename\<close>, \<open>join\<close>, \<open>relative\<close>, \<open>sep\<close>). The functions
  below are the POSIX variants, on strings as lists of characters. Node scans characters;
  here a string is cut at every \<open>/\<close> and the segments are processed, which gives the same
  result segment by segment.
\<close>

fun split_sep :: "string \<Rightarrow> string list" where
  "split_sep [] = [[]]"
| "split_sep (c # cs) =
     (if c = CHR ''/'' then [] # split_sep cs
      else (case split_sep cs of [] \<Rightarrow> [[c]] | s # ss \<Rightarrow> (c # s) # ss))"

fun join_sep :: "string list \<Rightarrow> string" where
  "join_sep [] = []"
| "join_sep [s] = s"
| "join_sep (s # t # ss) = s @ ''/'' @ join_sep (t # ss)"

text \<open>
  \<open>normalizeString\<close>: empty segments and \<open>.\<close> are dropped; \<open>..\<close> removes the last kept
  segment unless there is none or it is itself \<open>..\<close>, in which case it is kept only when
  the path may climb above its start (a relative path). \<open>res\<close> holds the kept segments,
  last one first.
\<close>

fun normalizeSegs :: "bool \<Rightarrow> string list \<Rightarrow> string list \<Rightarrow> string list" where
  "normalizeSegs allowAboveRoot res [] = rev res"
| "normalizeSegs allowAboveRoot res (seg # segs) =
     (if seg = [] \<or> seg = ''.'' then normalizeSegs allowAboveRoot res segs
      else if seg = ''..'' then
        (case res of
           [] \<Rightarrow> normalizeSegs allowAboveRoot (if allowAboveRoot then [''..''] else []) segs
         | l # rest \<Rightarrow>
             if l \<noteq> ''..'' then normalizeSegs allowAboveRoot rest segs
             else normalizeSegs allowAboveRoot (if allowAboveRoot then ''..'' # res else res) segs)
      else normalizeSegs allowAboveRoot (seg # res) segs)"

definition normalizeString :: "string \<Rightarrow> bool \<Rightarrow> string" where
  "normalizeString p allowAboveRoot = join_sep (normalizeSegs allowAboveRoot [] (split_sep p))"

text \<open>
  \<open>path.resolve\<close> walks its arguments from the last to the first, and then the process's
  working directory, until the accumulated path is absolute; empty arguments are skipped.
\<close>

fun resolve_args :: "string list \<Rightarrow> string \<Rightarrow> string \<times> bool" where
  "resolve_args [] resolvedPath = (resolvedPath, False)"
| "resolve_args (p # ps) resolvedPath =
     (if p = [] then resolve_args ps resolvedPath
      else if hd p = CHR ''/'' then (p @ ''/'' @ resolvedPath, True)
      else resolve_args ps (p @ ''/'' @ resolvedPath))"

definition path_resolve :: "string \<Rightarrow> string list \<Rightarrow> string" where
  "path_resolve process_cwd args =
     (case resolve_args (rev args @ [process_cwd]) [] of
        (resolvedPath, resolvedAbsolute) \<Rightarrow>
          (let n = normalizeString resolvedPath (\<not> resolvedAbsolute)
           in if resolvedAbsolute then ''/'' @ n
              else if n \<noteq> [] then n else ''.''))"

definition path_normalize :: "string \<Rightarrow> string" where
  "path_normalize p =
     (if p = [] then ''.''
      else
        (let isAbsolute = (hd p = CHR ''/'');
             trailingSeparator = (last p = CHR ''/'');
             n = normalizeString p (\<not> isAbsolute)
         in if n = [] then (if isAbsolute then ''/'' else if trailingSeparator then ''./'' else ''.'')
            else (if isAbsolute then ''/'' else []) @ n @ (if trailingSeparator then ''/'' else [])))"

definition path_join :: "string list \<Rightarrow> string" where
  "path_join args =
     (let parts = filter (\<lambda>a. a \<noteq> []) args
      in if parts = [] then ''.'' else path_normalize (join_sep parts))"

text \<open>
  \<open>path.dirname\<close> ignores trailing slashes, looks for the last slash before the final
  segment at an index of at least 1, and cuts the path there.
\<close>

definition path_dirname :: "string \<Rightarrow> string" where
  "path_dirname p =
     (if p = [] then ''.''
      else
        (let hasRoot = (hd p = CHR ''/'');
             r = dropWhile (\<lambda>c. c \<noteq> CHR ''/'') (dropWhile (\<lambda>c. c = CHR ''/'') (rev (tl p)))
         in if r = [] then (if hasRoot then ''/'' else ''.'')
            else if hasRoot \<and> length r = 1 then ''//''
            else take (length r) p))"

definition path_basename :: "string \<Rightarrow> string" where
  "path_basename p =
     rev (takeWhile (\<lambda>c. c \<noteq> CHR ''/'') (dropWhile (\<lambda>c. c = CHR ''/'') (rev p)))"

text \<open>
  \<open>path.relative\<close> resolves both paths, drops their common leading segments, climbs out
  of what is left of \<open>from\<close> and descends into what is left of \<open>to\<close>.
\<close>

fun strip_common :: "string list \<Rightarrow> string list \<Rightarrow> string list \<times> string list" where
  "strip_common (a # as) (b # bs) = (if a = b then strip_common as bs else (a # as, b # bs))"
| "strip_common as bs = (as, bs)"

definition path_segments :: "string \<Rightarrow> string list" where
  "path_segments p = filter (\<lambda>s. s \<noteq> []) (split_sep p)"

definition path_relative :: "string \<Rightarrow> string \<Rightarrow> string \<Rightarrow> string" where
  "path_relative process_cwd from to =
     (if from = to then []
      else
        (let f = path_resolve process_cwd [from]; t = path_resolve process_cwd [to]
         in if f = t then []
            else (case strip_common (path_segments f) (path_segments t) of
                    (fs, ts) \<Rightarrow> join_sep (replicate (length fs) ''..'' @ ts))))"

section \<open>Strings and buffers\<close>














section \<open>Errors\<close>

text \<open>
  The error classes of \<open>errors.ts\<close>, each carrying the string its constructor was given.
  \<open>OutOfRoot\<close> stands for the plain \<open>Error\<close> that \<open>StagedFileSystem.resolvePath\<close> throws
  (``Cannot resolve path outside of working directory''), carrying the offending input
  path. \<open>NodeError\<close> is an error of Node's \<open>fs\<close> that \<open>mapFsError\<close> rethrows unmapped.
\<close>

datatype errno = ENOENT | EACCES | EPERM | ENOTEMPTY | EEXIST | ENOTDIR | EISDIR

datatype fs_error =
    NotFoundError string
  | IllegalOperationOnDirectoryError string
  | DirectoryNotEmptyError string
  | PermissionDeniedError string
  | AlreadyExistsError string
  | OutOfRoot string
  | NodeError errno

fun mapFsError :: "errno \<Rightarrow> string \<Rightarrow> fs_error" where
  "mapFsError ENOENT path = NotFoundError path"
| "mapFsError EACCES path = PermissionDeniedError path"
| "mapFsError EPERM path = PermissionDeniedError path"
| "mapFsError ENOTEMPTY path = DirectoryNotEmptyError path"
| "mapFsError EEXIST path = AlreadyExistsError path"
| "mapFsError e path = NodeError e"

section \<open>The environment of a staged file system\<close>

text \<open>
  An instance is created with a working directory and a list of ignored globs, both fixed
  for its lifetime. The disk is reached through Node's \<open>fs\<close> (\<open>accessSync\<close>,
  \<open>readFileSync\<close>, \<open>readdirSync\<close>) and through \<open>FastGlob.sync\<close>; these are primitives of
  the environment. \<open>fastGlobSync ignore cwd\<close> is the call
  \<open>FastGlob.sync('**', {ignore, cwd, stats: true, absolute: true})\<close>: it gives, for every
  entry found, its \<open>name\<close> and its absolute \<open>path\<close>. \<open>processCwd\<close> is \<open>process.cwd()\<close>.
\<close>

record env =
  workingDir :: string
  ignoredGlobs :: "string list"
  processCwd :: string
  accessSync :: "string \<Rightarrow> errno option"
  readFileSync :: "string \<Rightarrow> errno + string"
  readdirSync :: "string \<Rightarrow> errno + (string \<times> bool) list"
  fastGlobSync :: "string list \<Rightarrow> string \<Rightarrow> errno + (string \<times> string) list"

record DirEntry =
  name :: string
  path :: string
  isDirectory :: bool

section \<open>RealFileSystem\<close>

text \<open>
  The staged file system builds its \<open>RealFileSystem\<close> with \<open>cwd = workingDir\<close>. Each
  method resolves its path inside its \<open>try\<close> block; the \<open>PermissionDeniedError\<close> thrown
  by \<open>resolvePath\<close> has no \<open>code\<close>, so \<open>mapFsError\<close> rethrows it as it is.
\<close>

definition real_resolvePath :: "env \<Rightarrow> string \<Rightarrow> fs_error + string" where
  "real_resolvePath e filePath =
     (let resolvedPath = path_resolve (processCwd e) [workingDir e, filePath]
      in if \<not> prefix (workingDir e) resolvedPath
         then Inl (PermissionDeniedError
                (''Cannot resolve path outside of working directory: '' @ resolvedPath))
         else Inr resolvedPath)"

definition real_existsSync :: "env \<Rightarrow> string \<Rightarrow> fs_error + bool" where
  "real_existsSync e p =
     (case real_resolvePath e p of
        Inl err \<Rightarrow> Inl err
      | Inr rp \<Rightarrow>
          (case accessSync e rp of
             None \<Rightarrow> Inr True
           | Some code \<Rightarrow> if code = ENOENT then Inr False else Inl (mapFsError code p)))"

definition real_readBufferSync :: "env \<Rightarrow> string \<Rightarrow> fs_error + string" where
  "real_readBufferSync e filePath =
     (case real_resolvePath e filePath of
        Inl err \<Rightarrow> Inl err
      | Inr rp \<Rightarrow>
          (case readFileSync e rp of
             Inl code \<Rightarrow> Inl (mapFsError code filePath)
           | Inr data \<Rightarrow> Inr data))"

definition real_readDirSync :: "env \<Rightarrow> string \<Rightarrow> fs_error + DirEntry list" where
  "real_readDirSync e dirPath =
     (case real_resolvePath e dirPath of
        Inl err \<Rightarrow> Inl err
      | Inr rp \<Rightarrow>
          (case readdirSync e rp of
             Inl code \<Rightarrow> Inl (mapFsError code dirPath)
           | Inr entries \<Rightarrow>
               Inr (map (\<lambda>(n, d). \<lparr>name = n, path = path_join [rp, n], isDirectory = d\<rparr>)
                      entries)))"

section \<open>StagedFileSystem: the overlay state\<close>

text \<open>
  The four private fields. A JavaScript \<open>Map\<close> keeps its keys in insertion order:
  \<open>set\<close> on a present key replaces the value in place, on a new key it appends
  (\<open>AList.update\<close>); \<open>delete\<close> removes the key (\<open>AList.delete\<close>). A \<open>Set\<close> is a list
  without duplicates, in insertion order. A move operation is its \<open>srcPath\<close> and
  \<open>destPath\<close> (its \<open>type\<close> is always \<open>'move'\<close>). A \<open>Buffer\<close> is the string of its bytes.
\<close>

datatype staged_content = Buffer string | STAGED_FILE_SYSTEM_DIRECTORY_SYMBOL

record staged_fs =
  moveOperations :: "(string \<times> string) list"
  stagedPathToContentMap :: "(string \<times> staged_content) list"
  movedPathToOriginalPathMap :: "(string \<times> string) list"
  deletedOriginalPaths :: "string list"

definition new_staged_fs :: staged_fs where
  "new_staged_fs = \<lparr>moveOperations = [], stagedPathToContentMap = [],
     movedPathToOriginalPathMap = [], deletedOriginalPaths = []\<rparr>"

definition map_has :: "('k \<times> 'v) list \<Rightarrow> 'k \<Rightarrow> bool" where
  "map_has m k = (map_of m k \<noteq> None)"

definition set_add :: "'a \<Rightarrow> 'a list \<Rightarrow> 'a list" where
  "set_add x xs = (if x \<in> set xs then xs else xs @ [x])"

definition set_delete :: "'a \<Rightarrow> 'a list \<Rightarrow> 'a list" where
  "set_delete x xs = removeAll x xs"

section \<open>StagedFileSystem: path resolution and queries\<close>

definition resolvePath :: "env \<Rightarrow> string \<Rightarrow> fs_error + string" where
  "resolvePath e filePath =
     (let resolvedPath = path_resolve (processCwd e) [workingDir e, filePath]
      in if \<not> prefix (workingDir e) resolvedPath then Inl (OutOfRoot filePath)
         else Inr resolvedPath)"

definition resolveOriginalPath :: "env \<Rightarrow> staged_fs \<Rightarrow> string \<Rightarrow> fs_error + string" where
  "resolveOriginalPath e s stagedPath =
     (case resolvePath e stagedPath of
        Inl err \<Rightarrow> Inl err
      | Inr resolvedPath \<Rightarrow>
          Inr (case map_of (movedPathToOriginalPathMap s) resolvedPath of
                 Some original \<Rightarrow> original
               | None \<Rightarrow> resolvedPath))"

definition isPathDeleted :: "staged_fs \<Rightarrow> string \<Rightarrow> bool" where
  "isPathDeleted s stagedPath =
     (let originalPath = (case map_of (movedPathToOriginalPathMap s) stagedPath of
                            Some original \<Rightarrow> original | None \<Rightarrow> stagedPath)
      in originalPath \<in> set (deletedOriginalPaths s))"

definition existsSync :: "env \<Rightarrow> staged_fs \<Rightarrow> string \<Rightarrow> fs_error + bool" where
  "existsSync e s p =
     (case resolveOriginalPath e s p of
        Inl err \<Rightarrow> Inl err
      | Inr originalPath \<Rightarrow>
          (case resolvePath e p of
             Inl err \<Rightarrow> Inl err
           | Inr resolvedPath \<Rightarrow>
               if originalPath \<in> set (deletedOriginalPaths s) then Inr False
               else if map_has (stagedPathToContentMap s) resolvedPath then Inr True
               else real_existsSync e originalPath))"

definition readBufferStaged :: "staged_fs \<Rightarrow> string \<Rightarrow> fs_error + string option" where
  "readBufferStaged s resolvedPath =
     (case map_of (stagedPathToContentMap s) resolvedPath of
        Some STAGED_FILE_SYSTEM_DIRECTORY_SYMBOL \<Rightarrow>
          Inl (IllegalOperationOnDirectoryError resolvedPath)
      | Some (Buffer data) \<Rightarrow> Inr (Some data)
      | None \<Rightarrow> Inr None)"

text \<open>
  \<open>readBufferSync\<close>: a \<open>Buffer\<close> is an object, so \<open>if (content)\<close> holds for every staged
  buffer, the empty one included. The staged file system's \<open>readFileSync\<close>
  (\<open>readFileSync_staged\<close> here; the plain name is Node's) decodes what \<open>readBufferSync\<close>
  returns.
\<close>

definition readBufferSync :: "env \<Rightarrow> staged_fs \<Rightarrow> string \<Rightarrow> fs_error + string" where
  "readBufferSync e s filePath =
     (case resolvePath e filePath of
        Inl err \<Rightarrow> Inl err
      | Inr resolvedPath \<Rightarrow>
          (case readBufferStaged s resolvedPath of
             Inl err \<Rightarrow> Inl err
           | Inr (Some content) \<Rightarrow> Inr content
           | Inr None \<Rightarrow>
               (case resolveOriginalPath e s resolvedPath of
                  Inl err \<Rightarrow> Inl err
                | Inr realPath \<Rightarrow> real_readBufferSync e realPath)))"


definition listFilesInStagedDir :: "staged_fs \<Rightarrow> string \<Rightarrow> DirEntry list" where
  "listFilesInStagedDir s dirPath =
     map (\<lambda>(stagedPath, content).
            \<lparr>name = path_basename stagedPath, path = stagedPath,
             isDirectory = (content = STAGED_FILE_SYSTEM_DIRECTORY_SYMBOL)\<rparr>)
       (filter (\<lambda>(stagedPath, content). path_dirname stagedPath = dirPath)
          (stagedPathToContentMap s))"

definition rewriteOriginalPathToMovedPath :: "staged_fs \<Rightarrow> string \<Rightarrow> string" where
  "rewriteOriginalPathToMovedPath s originalPath =
     (case find (\<lambda>(movedPath, originalPathEntry). originalPath = originalPathEntry)
             (movedPathToOriginalPathMap s) of
        Some (movedPath, originalPathEntry) \<Rightarrow> movedPath
      | None \<Rightarrow> originalPath)"

definition mergeDirectoryEntries :: "staged_fs \<Rightarrow> string \<Rightarrow> DirEntry list \<Rightarrow> DirEntry list" where
  "mergeDirectoryEntries s dirPath realEntries =
     (let stagedEntries = listFilesInStagedDir s dirPath
      in map (\<lambda>entry. entry\<lparr>path := rewriteOriginalPathToMovedPath s (path entry)\<rparr>)
           (filter (\<lambda>entry. \<not> list_ex (\<lambda>stagedEntry. name stagedEntry = name entry) stagedEntries
                             \<and> \<not> isPathDeleted s (path entry))
              realEntries)
         @ stagedEntries)"

definition readDirSync :: "env \<Rightarrow> staged_fs \<Rightarrow> string \<Rightarrow> fs_error + DirEntry list" where
  "readDirSync e s dirPath =
     (case existsSync e s dirPath of
        Inl err \<Rightarrow> Inl err
      | Inr False \<Rightarrow> Inl (NotFoundError dirPath)
      | Inr True \<Rightarrow>
          (case resolveOriginalPath e s dirPath of
             Inl err \<Rightarrow> Inl err
           | Inr originalPath \<Rightarrow>
               (case real_readDirSync e originalPath of
                  Inl (NotFoundError x) \<Rightarrow> Inr (mergeDirectoryEntries s dirPath [])
                | Inl err \<Rightarrow> Inl err
                | Inr realEntries \<Rightarrow> Inr (mergeDirectoryEntries s dirPath realEntries))))"

section \<open>StagedFileSystem: mutations\<close>

text \<open>
  An operation that throws returns \<open>Inl\<close> with the error and no state: a run is followed
  up to its first exception.

  \<open>mkdirSync\<close> walks from the resolved path towards the working directory and puts a
  directory marker on every path that does not exist yet. The loop has no bound of its
  own, so it is a partial function: \<open>None\<close> is a run that never returns.
\<close>

partial_function (option) mkdir_loop :: "env \<Rightarrow> staged_fs \<Rightarrow> string \<Rightarrow> (fs_error + staged_fs) option" where
  "mkdir_loop e s dirname =
     (if dirname = workingDir e then Some (Inr s)
      else
        (case existsSync e s dirname of
           Inl err \<Rightarrow> Some (Inl err)
         | Inr found \<Rightarrow>
             if found then Some (Inr s)
             else mkdir_loop e
                    (s\<lparr>stagedPathToContentMap :=
                         AList.update dirname STAGED_FILE_SYSTEM_DIRECTORY_SYMBOL
                           (stagedPathToContentMap s)\<rparr>)
                    (path_dirname dirname)))"

declare mkdir_loop.simps [code]

definition mkdirSync :: "env \<Rightarrow> staged_fs \<Rightarrow> string \<Rightarrow> (fs_error + staged_fs) option" where
  "mkdirSync e s dirPath =
     (case resolvePath e dirPath of
        Inl err \<Rightarrow> Some (Inl err)
      | Inr dirname \<Rightarrow> mkdir_loop e s dirname)"

definition rmSync :: "env \<Rightarrow> staged_fs \<Rightarrow> string \<Rightarrow> fs_error + staged_fs" where
  "rmSync e s targetPath =
     (case resolveOriginalPath e s targetPath of
        Inl err \<Rightarrow> Inl err
      | Inr originalPath \<Rightarrow>
          (case resolvePath e targetPath of
             Inl err \<Rightarrow> Inl err
           | Inr resolvedPath \<Rightarrow>
               Inr (s\<lparr>stagedPathToContentMap :=
                        AList.delete resolvedPath (stagedPathToContentMap s),
                      deletedOriginalPaths := set_add originalPath (deletedOriginalPaths s)\<rparr>)))"

definition writeBufferSync :: "env \<Rightarrow> staged_fs \<Rightarrow> string \<Rightarrow> string \<Rightarrow> (fs_error + staged_fs) option" where
  "writeBufferSync e s filePath data =
     (case resolveOriginalPath e s filePath of
        Inl err \<Rightarrow> Some (Inl err)
      | Inr originalPath \<Rightarrow>
          (case mkdirSync e
                  (s\<lparr>deletedOriginalPaths := set_delete originalPath (deletedOriginalPaths s)\<rparr>)
                  (path_dirname filePath) of
             None \<Rightarrow> None
           | Some (Inl err) \<Rightarrow> Some (Inl err)
           | Some (Inr s') \<Rightarrow>
               (case resolvePath e filePath of
                  Inl err \<Rightarrow> Some (Inl err)
                | Inr resolvedPath \<Rightarrow>
                    Some (Inr (s'\<lparr>stagedPathToContentMap :=
                                   AList.update resolvedPath (Buffer data)
                                     (stagedPathToContentMap s')\<rparr>)))))"


text \<open>
  \<open>updateNestedPathMappings\<close>: \<open>renameMapKeys\<close> takes a copy of the map's entries and,
  for each key that is \<open>oldBasePath\<close> or starts with \<open>oldBasePath + path.sep\<close>, deletes
  the key and sets the new key, one entry after the other on the live map.
\<close>

definition key_matches :: "string \<Rightarrow> string \<Rightarrow> bool" where
  "key_matches oldBasePath key = (prefix (oldBasePath @ ''/'') key \<or> key = oldBasePath)"

definition newKey :: "string \<Rightarrow> string \<Rightarrow> string \<Rightarrow> string \<Rightarrow> string" where
  "newKey pcwd oldBasePath newBasePath key =
     path_join [newBasePath, path_relative pcwd oldBasePath key]"

definition renameMapKeys_step ::
    "string \<Rightarrow> string \<Rightarrow> string \<Rightarrow> (string \<times> 'v) list \<Rightarrow> string \<times> 'v \<Rightarrow> (string \<times> 'v) list" where
  "renameMapKeys_step pcwd oldBasePath newBasePath m kv =
     (case kv of (key, val) \<Rightarrow>
        if key_matches oldBasePath key
        then AList.update (newKey pcwd oldBasePath newBasePath key) val (AList.delete key m)
        else m)"

definition renameMapKeys ::
    "string \<Rightarrow> string \<Rightarrow> string \<Rightarrow> (string \<times> 'v) list \<Rightarrow> (string \<times> 'v) list" where
  "renameMapKeys pcwd oldBasePath newBasePath m =
     foldl (renameMapKeys_step pcwd oldBasePath newBasePath) m m"

definition updateNestedPathMappings :: "env \<Rightarrow> staged_fs \<Rightarrow> string \<Rightarrow> string \<Rightarrow> staged_fs" where
  "updateNestedPathMappings e s oldBasePath newBasePath =
     s\<lparr>movedPathToOriginalPathMap :=
         renameMapKeys (processCwd e) oldBasePath newBasePath (movedPathToOriginalPathMap s),
       stagedPathToContentMap :=
         renameMapKeys (processCwd e) oldBasePath newBasePath (stagedPathToContentMap s)\<rparr>"

definition moveSync :: "env \<Rightarrow> staged_fs \<Rightarrow> string \<Rightarrow> string \<Rightarrow> fs_error + staged_fs" where
  "moveSync e s srcPath destPath =
     (case resolvePath e srcPath of
        Inl err \<Rightarrow> Inl err
      | Inr resolvedSrcPath \<Rightarrow>
     (case resolvePath e destPath of
        Inl err \<Rightarrow> Inl err
      | Inr resolvedDestPath \<Rightarrow>
     (case existsSync e s resolvedSrcPath of
        Inl err \<Rightarrow> Inl err
      | Inr False \<Rightarrow> Inl (NotFoundError resolvedSrcPath)
      | Inr True \<Rightarrow>
     (case existsSync e s (path_dirname resolvedDestPath) of
        Inl err \<Rightarrow> Inl err
      | Inr False \<Rightarrow> Inl (NotFoundError (path_dirname resolvedDestPath))
      | Inr True \<Rightarrow>
     (case resolveOriginalPath e s resolvedSrcPath of
        Inl err \<Rightarrow> Inl err
      | Inr originalSrcPath \<Rightarrow>
     (case fastGlobSync e (ignoredGlobs e) originalSrcPath of
        Inl code \<Rightarrow> Inl (NodeError code)
      | Inr paths \<Rightarrow>
          (let s1 = s\<lparr>movedPathToOriginalPathMap :=
                         foldl (\<lambda>m (n, p). AList.update (path_join [resolvedDestPath, n]) p m)
                           (movedPathToOriginalPathMap s) paths\<rparr>;
               s2 = s1\<lparr>moveOperations := moveOperations s1 @ [(resolvedSrcPath, resolvedDestPath)]\<rparr>
           in Inr (updateNestedPathMappings e s2 resolvedSrcPath resolvedDestPath))))))))"

definition copySync :: "env \<Rightarrow> staged_fs \<Rightarrow> string \<Rightarrow> string \<Rightarrow> (fs_error + staged_fs) option" where
  "copySync e s srcPath destPath =
     (case readBufferSync e s srcPath of
        Inl err \<Rightarrow> Some (Inl err)
      | Inr content \<Rightarrow> writeBufferSync e s destPath content)"


section \<open>An in-memory disk\<close>

text \<open>
  The unit tests replace Node's \<open>fs\<close> by an in-memory volume filled from a table of
  absolute paths (\<open>vol.fromJSON\<close>): a path is a file with its content or a directory.
  A path that is not in the volume is answered with \<open>ENOENT\<close>, or with \<open>ENOTDIR\<close> when
  it lies below a regular file.

  \<open>FastGlob.sync('**', {ignore, cwd, stats: true, absolute: true})\<close> over the volume lists
  every file below \<open>cwd\<close>, each with its base name as \<open>name\<close> and its absolute \<open>path\<close>,
  leaving out a file that has a segment starting with a dot on its way from \<open>cwd\<close>
  (the option \<open>dot\<close> is off) and a file whose path relative to \<open>cwd\<close> matches one of the
  \<open>ignore\<close> patterns; a missing \<open>cwd\<close> gives no entries. Which paths a pattern matches is
  the business of the glob matcher, a parameter \<open>isMatch\<close> of the volume's environment.
  \<open>memfs\<close> is the environment of an instance without ignored globs, whose matcher is
  never asked about a pattern.
\<close>

datatype vol_node = VolFile string | VolDir

definition lies_below :: "string \<Rightarrow> string \<Rightarrow> bool" where
  "lies_below dir p =
     (prefix (path_segments dir) (path_segments p) \<and> path_segments dir \<noteq> path_segments p)"

definition below_file :: "(string \<times> vol_node) list \<Rightarrow> string \<Rightarrow> bool" where
  "below_file vol p = list_ex (\<lambda>(k, n). n \<noteq> VolDir \<and> lies_below k p) vol"

definition vol_missing :: "(string \<times> vol_node) list \<Rightarrow> string \<Rightarrow> errno" where
  "vol_missing vol p = (if below_file vol p then ENOTDIR else ENOENT)"

definition vol_access :: "(string \<times> vol_node) list \<Rightarrow> string \<Rightarrow> errno option" where
  "vol_access vol p = (case map_of vol p of None \<Rightarrow> Some (vol_missing vol p) | Some n \<Rightarrow> None)"

definition vol_readFile :: "(string \<times> vol_node) list \<Rightarrow> string \<Rightarrow> errno + string" where
  "vol_readFile vol p =
     (case map_of vol p of
        None \<Rightarrow> Inl (vol_missing vol p)
      | Some VolDir \<Rightarrow> Inl EISDIR
      | Some (VolFile c) \<Rightarrow> Inr c)"

definition vol_readdir :: "(string \<times> vol_node) list \<Rightarrow> string \<Rightarrow> errno + (string \<times> bool) list" where
  "vol_readdir vol p =
     (case map_of vol p of
        None \<Rightarrow> Inl (vol_missing vol p)
      | Some (VolFile c) \<Rightarrow> Inl ENOTDIR
      | Some VolDir \<Rightarrow>
          Inr (map (\<lambda>(k, n). (path_basename k, n = VolDir))
                 (filter (\<lambda>(k, n). path_dirname k = p \<and> k \<noteq> p) vol)))"

definition relative_segments :: "string \<Rightarrow> string \<Rightarrow> string list" where
  "relative_segments cwd p = drop (length (path_segments cwd)) (path_segments p)"

definition has_dot_segment :: "string list \<Rightarrow> bool" where
  "has_dot_segment segs = list_ex (\<lambda>seg. prefix ''.'' seg) segs"

definition vol_glob ::
    "(string \<Rightarrow> string list \<Rightarrow> bool) \<Rightarrow> (string \<times> vol_node) list \<Rightarrow> string list \<Rightarrow> string
     \<Rightarrow> errno + (string \<times> string) list" where
  "vol_glob isMatch vol ignore cwd =
     (case map_of vol cwd of
        None \<Rightarrow> if below_file vol cwd then Inl ENOTDIR else Inr []
      | Some (VolFile c) \<Rightarrow> Inl ENOTDIR
      | Some VolDir \<Rightarrow>
          Inr (map (\<lambda>(k, n). (path_basename k, k))
                 (filter (\<lambda>(k, n). n \<noteq> VolDir \<and> lies_below cwd k
                            \<and> \<not> has_dot_segment (relative_segments cwd k)
                            \<and> \<not> (ignore \<noteq> []
                                 \<and> isMatch (join_sep (relative_segments cwd k)) ignore))
                    vol)))"

definition memfs_matching ::
    "(string \<Rightarrow> string list \<Rightarrow> bool) \<Rightarrow> string list \<Rightarrow> string \<Rightarrow> (string \<times> vol_node) list \<Rightarrow> env" where
  "memfs_matching isMatch globs cwd vol =
     \<lparr>workingDir = cwd, ignoredGlobs = globs, processCwd = ''/'',
      accessSync = vol_access vol, readFileSync = vol_readFile vol,
      readdirSync = vol_readdir vol, fastGlobSync = vol_glob isMatch vol\<rparr>"

definition memfs :: "string \<Rightarrow> (string \<times> vol_node) list \<Rightarrow> env" where
  "memfs cwd vol = memfs_matching (\<lambda>relativePath patterns. False) [] cwd vol"

text \<open>The volume of the unit tests of the staged file system.\<close>

definition test_vol :: "(string \<times> vol_node) list" where
  "test_vol =
     [(''/tmp'', VolDir),
      (''/tmp/existing-file.txt'', VolFile ''existing content''),
      (''/tmp/existing-dir'', VolDir),
      (''/tmp/existing-dir/nested-file.txt'', VolFile ''nested content'')]"


section \<open>StagedFileSystem: what a caller gets from the getters\<close>

text \<open>
  \<open>getMoveOperations\<close> and \<open>getStagedContentMap\<close> return the instance's own array and
  \<open>Map\<close>; \<open>getDeletedOriginalPaths\<close> spreads the set into a new array. The instance
  never assigns these fields again, it only changes the objects in place, so the object
  behind a returned reference always holds what the field holds: the state is the store,
  and \<open>deref\<close> reads a returned value in the state the caller looks at it. A getter
  returns its value together with the state it leaves behind.
\<close>

datatype field_ref = MoveOperationsRef | StagedPathToContentMapRef

datatype returned = Reference field_ref | NewArray "string list"

datatype seen =
    SeenMoveOperations "(string \<times> string) list"
  | SeenContentMap "(string \<times> staged_content) list"
  | SeenPaths "string list"

fun deref :: "staged_fs \<Rightarrow> returned \<Rightarrow> seen" where
  "deref s (Reference MoveOperationsRef) = SeenMoveOperations (moveOperations s)"
| "deref s (Reference StagedPathToContentMapRef) = SeenContentMap (stagedPathToContentMap s)"
| "deref s (NewArray xs) = SeenPaths xs"

definition getMoveOperations :: "staged_fs \<Rightarrow> returned \<times> staged_fs" where
  "getMoveOperations s = (Reference MoveOperationsRef, s)"

definition getStagedContentMap :: "staged_fs \<Rightarrow> returned \<times> staged_fs" where
  "getStagedContentMap s = (Reference StagedPathToContentMapRef, s)"

definition getDeletedOriginalPaths :: "staged_fs \<Rightarrow> returned \<times> staged_fs" where
  "getDeletedOriginalPaths s = (NewArray (deletedOriginalPaths s), s)"

section \<open>Notions used by the properties\<close>

text \<open>
  A resolved path is a slash followed by clean segments joined by slashes, or a single
  slash: \<open>render\<close> writes the segments out. A clean segment is not empty, holds no slash
  and is neither \<open>.\<close> nor \<open>..\<close>.
\<close>

definition render :: "string list \<Rightarrow> string" where
  "render segs = (if segs = [] then ''/'' else concat (map (\<lambda>s. CHR ''/'' # s) segs))"

definition clean_seg :: "string \<Rightarrow> bool" where
  "clean_seg s = (s \<noteq> [] \<and> CHR ''/'' \<notin> set s \<and> s \<noteq> ''.'' \<and> s \<noteq> ''..'')"

definition clean_segs :: "string list \<Rightarrow> bool" where
  "clean_segs segs = list_all clean_seg segs"

definition is_resolved :: "string \<Rightarrow> bool" where
  "is_resolved p = (clean_segs (path_segments p) \<and> p = render (path_segments p))"








text \<open>
  The original path of a key of the staged map, as \<open>resolveOriginalPath\<close> finds it for
  an already resolved path; and the invariant of the deleted paths: no key staged with
  file content has its original path among the deleted original paths.
\<close>

definition originalOf :: "staged_fs \<Rightarrow> string \<Rightarrow> string" where
  "originalOf s resolvedPath =
     (case map_of (movedPathToOriginalPathMap s) resolvedPath of
        Some original \<Rightarrow> original | None \<Rightarrow> resolvedPath)"

definition written_not_deleted :: "staged_fs \<Rightarrow> bool" where
  "written_not_deleted s =
     list_all (\<lambda>(k, c). case c of
                  Buffer data \<Rightarrow> originalOf s k \<notin> set (deletedOriginalPaths s)
                | STAGED_FILE_SYSTEM_DIRECTORY_SYMBOL \<Rightarrow> True)
       (stagedPathToContentMap s)"

text \<open>
  \<open>probes_answer e s ws xs\<close>: for the path made of the segments \<open>ws\<close> followed by \<open>xs\<close>
  and for each of its ancestors below the path of \<open>ws\<close>, the real file system's
  \<open>existsSync\<close> answers (with true or false) when asked about the path's original path.
\<close>

definition probe_answers :: "env \<Rightarrow> staged_fs \<Rightarrow> string \<Rightarrow> bool" where
  "probe_answers e s d =
     (case real_existsSync e (originalOf s d) of Inl err \<Rightarrow> False | Inr found \<Rightarrow> True)"

definition probes_answer :: "env \<Rightarrow> staged_fs \<Rightarrow> string list \<Rightarrow> string list \<Rightarrow> bool" where
  "probes_answer e s ws xs =
     list_all (probe_answers e s) (map (\<lambda>ys. render (ws @ ys)) (tl (prefixes xs)))"

text \<open>
  \<open>path.isAbsolute\<close>; and a string in which every surrogate has its partner, the strings
  that UTF-8 can encode.
\<close>

definition path_isAbsolute :: "string \<Rightarrow> bool" where
  "path_isAbsolute p = (p \<noteq> [] \<and> hd p = CHR ''/'')"


section \<open>Volumes of the examples\<close>

text \<open>
  A directory with a file at depth one and a file at depth two; a working directory
  \<open>/work\<close> beside a directory \<open>/workspace\<close>; and a volume holding only \<open>/a\<close>.
\<close>

definition nested_vol :: "(string \<times> vol_node) list" where
  "nested_vol =
     [(''/r'', VolDir),
      (''/r/a'', VolDir),
      (''/r/a/g.txt'', VolFile ''y''),
      (''/r/a/sub'', VolDir),
      (''/r/a/sub/f.txt'', VolFile ''x'')]"

definition work_vol :: "(string \<times> vol_node) list" where
  "work_vol =
     [(''/work'', VolDir),
      (''/workspace'', VolDir),
      (''/workspace/secret.txt'', VolFile ''s3cret'')]"


section \<open>Association lists and sets\<close>

lemma set_update_sub: "set (AList.update k v m) \<subseteq> insert (k, v) (set m)"
  by (induction m) auto

lemma set_alist_delete: "set (AList.delete k m) = {kv \<in> set m. fst kv \<noteq> k}"
  by (induction m) auto

lemma map_has_delete: "map_has (AList.delete k m) k' = (k' \<noteq> k \<and> map_has m k')"
  by (simp add: map_has_def delete_conv')

lemma set_set_add: "set (set_add x xs) = insert x (set xs)"
  by (auto simp: set_add_def)

lemma set_set_delete: "set (set_delete x xs) = set xs - {x}"
  by (auto simp: set_delete_def)

section \<open>Resolved paths in the operations\<close>

lemma rmSync_result:
  assumes "resolvePath e p = Inr rp"
  shows "rmSync e s p =
           Inr (s\<lparr>stagedPathToContentMap := AList.delete rp (stagedPathToContentMap s),
                  deletedOriginalPaths := set_add (originalOf s rp) (deletedOriginalPaths s)\<rparr>)"
  using assms by (simp add: rmSync_def resolveOriginalPath_def originalOf_def)

lemma existsSync_resolved:
  assumes "resolvePath e p = Inr rp"
  shows "existsSync e s p =
           (if originalOf s rp \<in> set (deletedOriginalPaths s) then Inr False
            else if map_has (stagedPathToContentMap s) rp then Inr True
            else real_existsSync e (originalOf s rp))"
  using assms by (simp add: existsSync_def resolveOriginalPath_def originalOf_def)

text \<open>
  A path that \<open>resolvePath\<close> rejects is rejected by every operation, with the same error.
\<close>

lemma rejected_by_every_operation:
  assumes "resolvePath e p = Inl err"
  shows "existsSync e s p = Inl err" "readBufferSync e s p = Inl err"
    "readDirSync e s p = Inl err" "rmSync e s p = Inl err"
    "mkdirSync e s p = Some (Inl err)" "writeBufferSync e s p c = Some (Inl err)"
    "moveSync e s p q = Inl err"
  using assms
  by (simp_all add: existsSync_def readBufferSync_def readDirSync_def rmSync_def mkdirSync_def
        writeBufferSync_def moveSync_def resolveOriginalPath_def)

section \<open>Deleting, then asking\<close>



section \<open>Deleting a directory\<close>

lemma merge_paths_no_bindings:
  assumes "movedPathToOriginalPathMap s = []" "x \<in> set (mergeDirectoryEntries s a es)"
  shows "path x \<in> fst ` set (stagedPathToContentMap s)
         \<or> path x \<notin> set (deletedOriginalPaths s)"
  using assms
  by (auto simp: mergeDirectoryEntries_def listFilesInStagedDir_def Let_def
        rewriteOriginalPathToMovedPath_def isPathDeleted_def intro: rev_image_eqI)

lemma readDirSync_entries:
  assumes "readDirSync e s a = Inr es" "x \<in> set es"
  shows "\<exists>rs. x \<in> set (mergeDirectoryEntries s a rs)"
  using assms
  by (auto simp: readDirSync_def split: sum.splits bool.splits if_splits fs_error.splits)

text \<open>
  The claim C3 says that after \<open>rm(d)\<close> on a directory of the real disk, \<open>exists(q)\<close> is
  \<open>false\<close> for every real path \<open>q\<close> below \<open>d\<close>. On the volume of the unit tests, after
  \<open>rm('/tmp/existing-dir')\<close> the only deleted original path is \<open>/tmp/existing-dir\<close>, and
  \<open>exists('/tmp/existing-dir/nested-file.txt')\<close> returns \<open>true\<close>.
\<close>

theorem rm_directory_descendant_still_exists:
  "rmSync (memfs ''/tmp'' test_vol) new_staged_fs ''/tmp/existing-dir''
     = Inr \<lparr>moveOperations = [], stagedPathToContentMap = [],
            movedPathToOriginalPathMap = [], deletedOriginalPaths = [''/tmp/existing-dir'']\<rparr>
   \<and> existsSync (memfs ''/tmp'' test_vol)
        \<lparr>moveOperations = [], stagedPathToContentMap = [],
         movedPathToOriginalPathMap = [], deletedOriginalPaths = [''/tmp/existing-dir'']\<rparr>
        ''/tmp/existing-dir/nested-file.txt'' = Inr True"
  by code_simp

text \<open>
  Claim C3, amended. \<open>rm(d)\<close> puts only the original path of \<open>d\<close> among the deleted
  original paths. Afterwards \<open>exists(d)\<close> is \<open>false\<close>; every path whose original path is
  not that of \<open>d\<close>, so every real path below \<open>d\<close> that was not moved there, has the same
  \<open>exists\<close> as before the \<open>rm\<close>; and, when nothing was moved before, no \<open>readDir\<close> lists
  an entry with the path of \<open>d\<close>.
\<close>

theorem rm_tombstones_only_its_path:
  assumes "resolvePath e d = Inr rd"
  shows "\<exists>s'. rmSync e s d = Inr s'
      \<and> set (deletedOriginalPaths s') = insert (originalOf s rd) (set (deletedOriginalPaths s))
      \<and> existsSync e s' d = Inr False
      \<and> (\<forall>q rq. resolvePath e q = Inr rq \<longrightarrow> originalOf s rq \<noteq> originalOf s rd
             \<longrightarrow> existsSync e s' q = existsSync e s q)
      \<and> (movedPathToOriginalPathMap s = []
             \<longrightarrow> (\<forall>a es. readDirSync e s' a = Inr es \<longrightarrow> rd \<notin> path ` set es))"
proof -
  let ?s' = "s\<lparr>stagedPathToContentMap := AList.delete rd (stagedPathToContentMap s),
               deletedOriginalPaths := set_add (originalOf s rd) (deletedOriginalPaths s)\<rparr>"
  have rm: "rmSync e s d = Inr ?s'" by (rule rmSync_result [OF assms])
  have orig: "\<And>k. originalOf ?s' k = originalOf s k" by (simp add: originalOf_def)
  have a: "set (deletedOriginalPaths ?s') = insert (originalOf s rd) (set (deletedOriginalPaths s))"
    by (simp add: set_set_add)
  have b: "existsSync e ?s' d = Inr False"
    by (simp add: existsSync_resolved [OF assms] orig set_set_add)
  have c: "existsSync e ?s' q = existsSync e s q"
    if "resolvePath e q = Inr rq" "originalOf s rq \<noteq> originalOf s rd" for q rq
  proof -
    from that(2) have "rq \<noteq> rd" by auto
    then show ?thesis
      using that by (simp add: existsSync_resolved [OF that(1)] orig set_set_add map_has_delete)
  qed
  have d: "rd \<notin> path ` set es"
    if nb: "movedPathToOriginalPathMap s = []" and rd: "readDirSync e ?s' a = Inr es" for a es
  proof
    assume "rd \<in> path ` set es"
    then obtain x where x: "x \<in> set es" "path x = rd" by auto
    from readDirSync_entries [OF rd x(1)] obtain rs
      where "x \<in> set (mergeDirectoryEntries ?s' a rs)" by blast
    with merge_paths_no_bindings [of ?s' x a rs] nb
    have "path x \<in> fst ` set (stagedPathToContentMap ?s')
          \<or> path x \<notin> set (deletedOriginalPaths ?s')" by auto
    moreover have "originalOf s rd = rd" using nb by (simp add: originalOf_def)
    ultimately show False using x(2) delete_notin_dom [of rd "stagedPathToContentMap s"]
      by (auto simp: set_set_add)
  qed
  show ?thesis using rm a b c d by blast
qed

theorem rm_tombstones_only_its_path_witness:
  "resolvePath (memfs ''/tmp'' test_vol) ''/tmp/existing-dir'' = Inr ''/tmp/existing-dir''
   \<and> resolvePath (memfs ''/tmp'' test_vol) ''/tmp/existing-dir/nested-file.txt''
       = Inr ''/tmp/existing-dir/nested-file.txt''
   \<and> existsSync (memfs ''/tmp'' test_vol) new_staged_fs ''/tmp/existing-dir/nested-file.txt''
       = Inr True
   \<and> (\<exists>s'. rmSync (memfs ''/tmp'' test_vol) new_staged_fs ''/tmp/existing-dir'' = Inr s'
         \<and> existsSync (memfs ''/tmp'' test_vol) s' ''/tmp/existing-dir'' = Inr False
         \<and> existsSync (memfs ''/tmp'' test_vol) s' ''/tmp/existing-dir/nested-file.txt''
             = Inr True)"
proof -
  let ?e = "memfs ''/tmp'' test_vol"
  have r: "resolvePath ?e ''/tmp/existing-dir'' = Inr ''/tmp/existing-dir''"
    by code_simp
  have q: "resolvePath ?e ''/tmp/existing-dir/nested-file.txt''
             = Inr ''/tmp/existing-dir/nested-file.txt''"
    by code_simp
  have x: "existsSync ?e new_staged_fs ''/tmp/existing-dir/nested-file.txt'' = Inr True"
    by code_simp
  have o: "originalOf new_staged_fs ''/tmp/existing-dir/nested-file.txt''
             \<noteq> originalOf new_staged_fs ''/tmp/existing-dir''"
    by code_simp
  from rm_tombstones_only_its_path [OF r, of new_staged_fs] obtain s' where
    s': "rmSync ?e new_staged_fs ''/tmp/existing-dir'' = Inr s'"
      "existsSync ?e s' ''/tmp/existing-dir'' = Inr False"
      "\<forall>q rq. resolvePath ?e q = Inr rq
          \<longrightarrow> originalOf new_staged_fs rq \<noteq> originalOf new_staged_fs ''/tmp/existing-dir''
          \<longrightarrow> existsSync ?e s' q = existsSync ?e new_staged_fs q"
    by blast
  from s'(3) q o have "existsSync ?e s' ''/tmp/existing-dir/nested-file.txt''
      = existsSync ?e new_staged_fs ''/tmp/existing-dir/nested-file.txt''"
    by blast
  with r q x s'(1,2) show ?thesis by auto
qed

section \<open>What the getters hand out\<close>

text \<open>
  The claim C9 says that a value extracted from the overlay is not altered by later
  mutations. The array returned by \<open>getMoveOperations\<close> before a move is empty when it
  is returned and holds the move once \<open>moveSync\<close> has run.
\<close>

theorem returned_move_operations_change:
  "deref new_staged_fs (fst (getMoveOperations new_staged_fs)) = SeenMoveOperations []
   \<and> moveSync (memfs ''/tmp'' test_vol) new_staged_fs ''/tmp/existing-dir'' ''/tmp/moved''
       = Inr \<lparr>moveOperations = [(''/tmp/existing-dir'', ''/tmp/moved'')],
              stagedPathToContentMap = [],
              movedPathToOriginalPathMap =
                [(''/tmp/moved/nested-file.txt'', ''/tmp/existing-dir/nested-file.txt'')],
              deletedOriginalPaths = []\<rparr>
   \<and> deref \<lparr>moveOperations = [(''/tmp/existing-dir'', ''/tmp/moved'')],
              stagedPathToContentMap = [],
              movedPathToOriginalPathMap =
                [(''/tmp/moved/nested-file.txt'', ''/tmp/existing-dir/nested-file.txt'')],
              deletedOriginalPaths = []\<rparr>
         (fst (getMoveOperations new_staged_fs))
       = SeenMoveOperations [(''/tmp/existing-dir'', ''/tmp/moved'')]"
  by code_simp

text \<open>
  Claim C9, amended. The three getters leave the overlay as it is. The list of deleted
  original paths is a new array: whatever state \<open>s'\<close> the overlay is in later, it holds
  the paths deleted when it was taken. The move operations and the staged content map
  are the overlay's own objects: read in a later state \<open>s'\<close>, they hold what the overlay
  holds in \<open>s'\<close>.
\<close>

theorem getters_read_only:
  "snd (getMoveOperations s) = s \<and> snd (getStagedContentMap s) = s
   \<and> snd (getDeletedOriginalPaths s) = s
   \<and> deref s' (fst (getDeletedOriginalPaths s)) = SeenPaths (deletedOriginalPaths s)
   \<and> deref s' (fst (getMoveOperations s)) = SeenMoveOperations (moveOperations s')
   \<and> deref s' (fst (getStagedContentMap s)) = SeenContentMap (stagedPathToContentMap s')"
  by (simp add: getMoveOperations_def getStagedContentMap_def getDeletedOriginalPaths_def)

section \<open>Moves\<close>

lemma moveSync_logs_one:
  assumes "moveSync e s srcPath destPath = Inr s'"
  shows "\<exists>rs rd. resolvePath e srcPath = Inr rs \<and> resolvePath e destPath = Inr rd
           \<and> moveOperations s' = moveOperations s @ [(rs, rd)]"
  using assms
  by (auto simp: moveSync_def updateNestedPathMappings_def Let_def
        split: sum.splits bool.splits)

text \<open>
  Claim C1 says that moving a path that exists only in the overlay appends nothing to
  the move operations. \<open>moveSync\<close> pushes its operation whatever the origin of the
  source: in the unit test ``should move staged file but not register as move
  operation'', \<open>/tmp/src.txt\<close> is written in the overlay (it is not on the disk) and
  moved to \<open>/tmp/dest.txt\<close>; afterwards \<open>getMoveOperations\<close> holds one operation, where
  the test expects none.
\<close>

theorem move_of_staged_file_is_logged:
  "accessSync (memfs ''/tmp'' test_vol) ''/tmp/src.txt'' = Some ENOENT
   \<and> writeBufferSync (memfs ''/tmp'' test_vol) new_staged_fs ''/tmp/src.txt'' ''test''
       = Some (Inr \<lparr>moveOperations = [],
                    stagedPathToContentMap = [(''/tmp/src.txt'', Buffer ''test'')],
                    movedPathToOriginalPathMap = [], deletedOriginalPaths = []\<rparr>)
   \<and> moveSync (memfs ''/tmp'' test_vol)
        \<lparr>moveOperations = [],
         stagedPathToContentMap = [(''/tmp/src.txt'', Buffer ''test'')],
         movedPathToOriginalPathMap = [], deletedOriginalPaths = []\<rparr>
        ''/tmp/src.txt'' ''/tmp/dest.txt''
       = Inr \<lparr>moveOperations = [(''/tmp/src.txt'', ''/tmp/dest.txt'')],
              stagedPathToContentMap = [(''/tmp/dest.txt'', Buffer ''test'')],
              movedPathToOriginalPathMap = [], deletedOriginalPaths = []\<rparr>"
  by code_simp

text \<open>
  Claim C2 says that moving a real directory binds every real descendant, at its
  relative path below the destination, to its original path. \<open>moveSync\<close> binds
  \<open>path.join(resolvedDestPath, pathEntry.name)\<close>, and the \<open>name\<close> of an entry is its base
  name: \<open>/r/a/sub/f.txt\<close> is bound at \<open>/r/b/f.txt\<close> when \<open>/r/a\<close> moves to \<open>/r/b\<close>. Reading
  \<open>/r/b/sub/f.txt\<close> then fails, while the file at depth one is read at its new place.
\<close>

theorem move_binds_nested_file_by_base_name:
  "moveSync (memfs ''/r'' nested_vol) new_staged_fs ''/r/a'' ''/r/b''
     = Inr \<lparr>moveOperations = [(''/r/a'', ''/r/b'')],
            stagedPathToContentMap = [],
            movedPathToOriginalPathMap =
              [(''/r/b/g.txt'', ''/r/a/g.txt''), (''/r/b/f.txt'', ''/r/a/sub/f.txt'')],
            deletedOriginalPaths = []\<rparr>
   \<and> readBufferSync (memfs ''/r'' nested_vol)
        \<lparr>moveOperations = [(''/r/a'', ''/r/b'')],
         stagedPathToContentMap = [],
         movedPathToOriginalPathMap =
           [(''/r/b/g.txt'', ''/r/a/g.txt''), (''/r/b/f.txt'', ''/r/a/sub/f.txt'')],
         deletedOriginalPaths = []\<rparr>
        ''/r/b/sub/f.txt''
       = Inl (NotFoundError ''/r/b/sub/f.txt'')
   \<and> readBufferSync (memfs ''/r'' nested_vol)
        \<lparr>moveOperations = [(''/r/a'', ''/r/b'')],
         stagedPathToContentMap = [],
         movedPathToOriginalPathMap =
           [(''/r/b/g.txt'', ''/r/a/g.txt''), (''/r/b/f.txt'', ''/r/a/sub/f.txt'')],
         deletedOriginalPaths = []\<rparr>
        ''/r/b/g.txt''
       = Inr ''y''"
  by code_simp

section \<open>Paths beside the working directory\<close>

text \<open>
  Claim C4 says that every path resolving outside the working directory is rejected.
  \<open>resolvePath\<close> compares strings: with the working directory \<open>/work\<close>, the path
  \<open>/workspace/secret.txt\<close> starts with \<open>/work\<close> and is accepted, by the staged and by the
  real file system, and the file outside the working directory is read, found and
  deleted.
\<close>

theorem sibling_of_working_directory_accepted:
  "resolvePath (memfs ''/work'' work_vol) ''/workspace/secret.txt''
     = Inr ''/workspace/secret.txt''
   \<and> readBufferSync (memfs ''/work'' work_vol) new_staged_fs ''/workspace/secret.txt''
       = Inr ''s3cret''
   \<and> existsSync (memfs ''/work'' work_vol) new_staged_fs ''../workspace/secret.txt'' = Inr True
   \<and> rmSync (memfs ''/work'' work_vol) new_staged_fs ''/workspace/secret.txt''
       = Inr \<lparr>moveOperations = [], stagedPathToContentMap = [],
              movedPathToOriginalPathMap = [],
              deletedOriginalPaths = [''/workspace/secret.txt'']\<rparr>"
  by code_simp

section \<open>Written paths and deleted original paths\<close>

text \<open>
  Whatever \<open>mkdirSync\<close>'s loop returns, it has only put directory markers into the staged
  map: the other three fields are untouched, every staged buffer was staged before, and
  a directory marker stays one.
\<close>

lemma mkdir_loop_frame:
  assumes "mkdir_loop e s d = Some r"
  shows "case r of Inl err \<Rightarrow> True
         | Inr s' \<Rightarrow> moveOperations s' = moveOperations s
             \<and> movedPathToOriginalPathMap s' = movedPathToOriginalPathMap s
             \<and> deletedOriginalPaths s' = deletedOriginalPaths s
             \<and> (\<forall>k c. (k, Buffer c) \<in> set (stagedPathToContentMap s')
                    \<longrightarrow> (k, Buffer c) \<in> set (stagedPathToContentMap s))
             \<and> (\<forall>k. map_of (stagedPathToContentMap s) k = Some STAGED_FILE_SYSTEM_DIRECTORY_SYMBOL
                    \<longrightarrow> map_of (stagedPathToContentMap s') k = Some STAGED_FILE_SYSTEM_DIRECTORY_SYMBOL)"
proof -
  let ?P = "\<lambda>(e::env) s (d::string) r. case r of Inl (err::fs_error) \<Rightarrow> True
         | Inr s' \<Rightarrow> moveOperations s' = moveOperations s
             \<and> movedPathToOriginalPathMap s' = movedPathToOriginalPathMap s
             \<and> deletedOriginalPaths s' = deletedOriginalPaths s
             \<and> (\<forall>k c. (k, Buffer c) \<in> set (stagedPathToContentMap s')
                    \<longrightarrow> (k, Buffer c) \<in> set (stagedPathToContentMap s))
             \<and> (\<forall>k. map_of (stagedPathToContentMap s) k = Some STAGED_FILE_SYSTEM_DIRECTORY_SYMBOL
                    \<longrightarrow> map_of (stagedPathToContentMap s') k = Some STAGED_FILE_SYSTEM_DIRECTORY_SYMBOL)"
  have "?P e s d r"
  proof (rule mkdir_loop.raw_induct [where P = ?P, OF _ assms], goal_cases)
    case (1 loop e s d r)
    show ?case
    proof (cases "d = workingDir e")
      case True
      with 1(2) show ?thesis by auto
    next
      case False
      show ?thesis
      proof (cases "existsSync e s d")
        case (Inl err)
        with False 1(2) show ?thesis by auto
      next
        case (Inr found)
        show ?thesis
        proof (cases found)
          case True
          with False Inr 1(2) show ?thesis by auto
        next
          case nf: False
          let ?s1 = "s\<lparr>stagedPathToContentMap :=
                           AList.update d STAGED_FILE_SYSTEM_DIRECTORY_SYMBOL
                             (stagedPathToContentMap s)\<rparr>"
          from False Inr nf 1(2) have call: "loop e ?s1 (path_dirname d) = Some r" by simp
          note ih = 1(1) [OF call]
          show ?thesis
          proof (cases r)
            case (Inl a)
            then show ?thesis by simp
          next
            case (Inr s')
            with ih have a: "moveOperations s' = moveOperations s"
              "movedPathToOriginalPathMap s' = movedPathToOriginalPathMap s"
              "deletedOriginalPaths s' = deletedOriginalPaths s"
              and b: "\<And>k c. (k, Buffer c) \<in> set (stagedPathToContentMap s')
                      \<Longrightarrow> (k, Buffer c) \<in> set (AList.update d STAGED_FILE_SYSTEM_DIRECTORY_SYMBOL
                             (stagedPathToContentMap s))"
              and c: "\<And>k. map_of (AList.update d STAGED_FILE_SYSTEM_DIRECTORY_SYMBOL
                             (stagedPathToContentMap s)) k = Some STAGED_FILE_SYSTEM_DIRECTORY_SYMBOL
                      \<Longrightarrow> map_of (stagedPathToContentMap s') k = Some STAGED_FILE_SYSTEM_DIRECTORY_SYMBOL"
              by auto
            have b': "\<And>k c. (k, Buffer c) \<in> set (stagedPathToContentMap s')
                      \<Longrightarrow> (k, Buffer c) \<in> set (stagedPathToContentMap s)"
              using b set_update_sub by fastforce
            have c': "\<And>k. map_of (stagedPathToContentMap s) k = Some STAGED_FILE_SYSTEM_DIRECTORY_SYMBOL
                      \<Longrightarrow> map_of (stagedPathToContentMap s') k = Some STAGED_FILE_SYSTEM_DIRECTORY_SYMBOL"
              by (rule c) (simp add: update_conv')
            show ?thesis using Inr a b' c' by simp
          qed
        qed
      qed
    qed
  qed
  then show ?thesis .
qed

lemma mkdir_loop_fields:
  assumes "mkdir_loop e s d = Some (Inr s')"
  shows "moveOperations s' = moveOperations s"
    "movedPathToOriginalPathMap s' = movedPathToOriginalPathMap s"
    "deletedOriginalPaths s' = deletedOriginalPaths s"
  using mkdir_loop_frame [OF assms] by simp_all

lemma mkdir_loop_buffers:
  assumes "mkdir_loop e s d = Some (Inr s')" "(k, Buffer c) \<in> set (stagedPathToContentMap s')"
  shows "(k, Buffer c) \<in> set (stagedPathToContentMap s)"
  using mkdir_loop_frame [OF assms(1)] assms(2) by simp

lemma mkdir_loop_markers:
  assumes "mkdir_loop e s d = Some (Inr s')"
    "map_of (stagedPathToContentMap s) k = Some STAGED_FILE_SYSTEM_DIRECTORY_SYMBOL"
  shows "map_of (stagedPathToContentMap s') k = Some STAGED_FILE_SYSTEM_DIRECTORY_SYMBOL"
  using mkdir_loop_frame [OF assms(1)] assms(2) by simp

lemma written_not_deleted_iff:
  "written_not_deleted s \<longleftrightarrow>
     (\<forall>k c. (k, Buffer c) \<in> set (stagedPathToContentMap s)
        \<longrightarrow> originalOf s k \<notin> set (deletedOriginalPaths s))"
  by (fastforce simp: written_not_deleted_def list_all_iff split: staged_content.splits)

lemma mkdir_loop_keeps_written_not_deleted:
  assumes "written_not_deleted s" "mkdir_loop e s d = Some (Inr s')"
  shows "written_not_deleted s'"
proof -
  have o: "\<And>k. originalOf s' k = originalOf s k"
    by (simp add: originalOf_def mkdir_loop_fields [OF assms(2)])
  show ?thesis
    using assms(1) mkdir_loop_buffers [OF assms(2)]
    by (auto simp: written_not_deleted_iff o mkdir_loop_fields [OF assms(2)])
qed

text \<open>
  The claim C8 says that no sequence of operations leaves a path staged with file
  content while its original path is among the deleted original paths. \<open>moveSync\<close>
  rewrites the keys of the staged map and never looks at the deleted original paths:
  after \<open>rm('/tmp/b')\<close> and \<open>writeFile('/tmp/a', 'x')\<close> the invariant holds, and after
  \<open>move('/tmp/a', '/tmp/b')\<close> the buffer is staged at \<open>/tmp/b\<close>, which is deleted.
\<close>

theorem move_onto_deleted_path_breaks_invariant:
  "rmSync (memfs ''/tmp'' test_vol) new_staged_fs ''/tmp/b''
     = Inr \<lparr>moveOperations = [], stagedPathToContentMap = [],
            movedPathToOriginalPathMap = [], deletedOriginalPaths = [''/tmp/b'']\<rparr>
   \<and> writeBufferSync (memfs ''/tmp'' test_vol)
        \<lparr>moveOperations = [], stagedPathToContentMap = [],
         movedPathToOriginalPathMap = [], deletedOriginalPaths = [''/tmp/b'']\<rparr>
        ''/tmp/a'' ''x''
       = Some (Inr \<lparr>moveOperations = [],
                    stagedPathToContentMap = [(''/tmp/a'', Buffer ''x'')],
                    movedPathToOriginalPathMap = [], deletedOriginalPaths = [''/tmp/b'']\<rparr>)
   \<and> written_not_deleted
        \<lparr>moveOperations = [], stagedPathToContentMap = [(''/tmp/a'', Buffer ''x'')],
         movedPathToOriginalPathMap = [], deletedOriginalPaths = [''/tmp/b'']\<rparr>
   \<and> moveSync (memfs ''/tmp'' test_vol)
        \<lparr>moveOperations = [], stagedPathToContentMap = [(''/tmp/a'', Buffer ''x'')],
         movedPathToOriginalPathMap = [], deletedOriginalPaths = [''/tmp/b'']\<rparr>
        ''/tmp/a'' ''/tmp/b''
       = Inr \<lparr>moveOperations = [(''/tmp/a'', ''/tmp/b'')],
              stagedPathToContentMap = [(''/tmp/b'', Buffer ''x'')],
              movedPathToOriginalPathMap = [], deletedOriginalPaths = [''/tmp/b'']\<rparr>
   \<and> \<not> written_not_deleted
        \<lparr>moveOperations = [(''/tmp/a'', ''/tmp/b'')],
         stagedPathToContentMap = [(''/tmp/b'', Buffer ''x'')],
         movedPathToOriginalPathMap = [], deletedOriginalPaths = [''/tmp/b'']\<rparr>"
  by code_simp

text \<open>
  Claim C8, amended. In a state where no path staged with file content has its original
  path among the deleted original paths: every \<open>writeFile\<close>/\<open>writeBuffer\<close> that returns
  leaves such a state, with the written path staged with the written content and its
  original path not deleted (the write removes it from the deleted original paths
  before it stages the content); every \<open>mkdir\<close> that returns leaves such a state; and
  \<open>rm(p)\<close> leaves such a state when no other path staged with file content has the
  original path of \<open>p\<close>. Nothing is said of \<open>move\<close>.
\<close>

theorem write_mkdir_rm_keep_written_not_deleted:
  assumes "written_not_deleted s"
  shows "(\<forall>p c s'. writeBufferSync e s p c = Some (Inr s') \<longrightarrow>
            written_not_deleted s'
            \<and> (\<exists>rp. resolvePath e p = Inr rp
                  \<and> map_of (stagedPathToContentMap s') rp = Some (Buffer c)
                  \<and> originalOf s' rp = originalOf s rp
                  \<and> originalOf s' rp \<notin> set (deletedOriginalPaths s')))
       \<and> (\<forall>p s'. mkdirSync e s p = Some (Inr s') \<longrightarrow> written_not_deleted s')
       \<and> (\<forall>p rp s'. resolvePath e p = Inr rp \<longrightarrow> rmSync e s p = Inr s' \<longrightarrow>
            (\<forall>k c. (k, Buffer c) \<in> set (stagedPathToContentMap s) \<longrightarrow> k \<noteq> rp
                  \<longrightarrow> originalOf s k \<noteq> originalOf s rp)
            \<longrightarrow> written_not_deleted s' \<and> map_of (stagedPathToContentMap s') rp = None
                \<and> originalOf s rp \<in> set (deletedOriginalPaths s'))"
proof -
  have wr: "written_not_deleted s'
        \<and> (\<exists>rp. resolvePath e p = Inr rp
              \<and> map_of (stagedPathToContentMap s') rp = Some (Buffer c)
              \<and> originalOf s' rp = originalOf s rp
              \<and> originalOf s' rp \<notin> set (deletedOriginalPaths s'))"
    if w: "writeBufferSync e s p c = Some (Inr s')" for p c s'
  proof -
  from w obtain rp where rp: "resolvePath e p = Inr rp"
    by (auto simp: writeBufferSync_def resolveOriginalPath_def split: sum.splits)
  let ?s0 = "s\<lparr>deletedOriginalPaths := set_delete (originalOf s rp) (deletedOriginalPaths s)\<rparr>"
  from w rp obtain s1 where
    mk: "mkdirSync e ?s0 (path_dirname p) = Some (Inr s1)" and
    s': "s' = s1\<lparr>stagedPathToContentMap :=
                   AList.update rp (Buffer c) (stagedPathToContentMap s1)\<rparr>"
    by (auto simp: writeBufferSync_def resolveOriginalPath_def originalOf_def
          split: sum.splits option.splits)
  from mk obtain d where lp: "mkdir_loop e ?s0 d = Some (Inr s1)"
    by (auto simp: mkdirSync_def split: sum.splits)
  note f = mkdir_loop_fields [OF lp]
  have o: "\<And>k. originalOf s' k = originalOf s k"
    by (simp add: originalOf_def s' f)
  have del: "set (deletedOriginalPaths s') = set (deletedOriginalPaths s) - {originalOf s rp}"
    by (simp add: s' f set_set_delete)
  have inv: "written_not_deleted s'"
    unfolding written_not_deleted_iff
  proof (intro allI impI)
    fix k b
    assume kb: "(k, Buffer b) \<in> set (stagedPathToContentMap s')"
    then have "(k, Buffer b) = (rp, Buffer c) \<or> (k, Buffer b) \<in> set (stagedPathToContentMap s1)"
      using set_update_sub [of rp "Buffer c" "stagedPathToContentMap s1"] by (auto simp: s')
    then show "originalOf s' k \<notin> set (deletedOriginalPaths s')"
    proof
      assume "(k, Buffer b) = (rp, Buffer c)"
      then show ?thesis by (simp add: o del)
    next
      assume "(k, Buffer b) \<in> set (stagedPathToContentMap s1)"
      from mkdir_loop_buffers [OF lp this]
      have "(k, Buffer b) \<in> set (stagedPathToContentMap s)" by simp
      with assms have "originalOf s k \<notin> set (deletedOriginalPaths s)"
        by (auto simp: written_not_deleted_iff)
      then show ?thesis by (simp add: o del)
    qed
  qed
  have "map_of (stagedPathToContentMap s') rp = Some (Buffer c)"
    by (simp add: s' update_conv')
  with inv rp o del show ?thesis by auto
  qed
  have mk: "written_not_deleted s'" if "mkdirSync e s p = Some (Inr s')" for p s'
  proof -
    from that obtain d where "mkdir_loop e s d = Some (Inr s')"
      by (auto simp: mkdirSync_def split: sum.splits)
    from mkdir_loop_keeps_written_not_deleted [OF assms this] show ?thesis .
  qed
  have rmv: "written_not_deleted s' \<and> map_of (stagedPathToContentMap s') rp = None
        \<and> originalOf s rp \<in> set (deletedOriginalPaths s')"
    if rp: "resolvePath e p = Inr rp" and rm: "rmSync e s p = Inr s'"
    and other: "\<forall>k c. (k, Buffer c) \<in> set (stagedPathToContentMap s) \<longrightarrow> k \<noteq> rp
                  \<longrightarrow> originalOf s k \<noteq> originalOf s rp" for p rp s'
  proof -
  from rm have s': "s' = s\<lparr>stagedPathToContentMap := AList.delete rp (stagedPathToContentMap s),
                  deletedOriginalPaths := set_add (originalOf s rp) (deletedOriginalPaths s)\<rparr>"
    by (simp add: rmSync_result [OF rp])
  have o: "\<And>k. originalOf s' k = originalOf s k"
    by (simp add: originalOf_def s')
  have sub: "\<And>k v. (k, v) \<in> set (stagedPathToContentMap s')
               \<Longrightarrow> (k, v) \<in> set (stagedPathToContentMap s) \<and> k \<noteq> rp"
    by (auto simp: s' set_alist_delete)
  have inv: "written_not_deleted s'"
    unfolding written_not_deleted_iff
  proof (intro allI impI)
    fix k b
    assume "(k, Buffer b) \<in> set (stagedPathToContentMap s')"
    from sub [OF this] have kb: "(k, Buffer b) \<in> set (stagedPathToContentMap s)" "k \<noteq> rp"
      by simp_all
    with other have "originalOf s k \<noteq> originalOf s rp" by blast
    moreover from assms kb(1) have "originalOf s k \<notin> set (deletedOriginalPaths s)"
      by (auto simp: written_not_deleted_iff)
    ultimately show "originalOf s' k \<notin> set (deletedOriginalPaths s')"
      by (simp add: o) (simp add: s' set_set_add)
  qed
  show ?thesis
    using inv by (simp add: s' delete_conv' set_set_add)
  qed
  show ?thesis using wr mk rmv by blast
qed

theorem write_mkdir_rm_keep_written_not_deleted_witness:
  "written_not_deleted
     \<lparr>moveOperations = [], stagedPathToContentMap = [],
      movedPathToOriginalPathMap = [], deletedOriginalPaths = [''/tmp/b'']\<rparr>
   \<and> writeBufferSync (memfs ''/tmp'' test_vol)
        \<lparr>moveOperations = [], stagedPathToContentMap = [],
         movedPathToOriginalPathMap = [], deletedOriginalPaths = [''/tmp/b'']\<rparr>
        ''/tmp/b'' ''x''
       = Some (Inr \<lparr>moveOperations = [],
                    stagedPathToContentMap = [(''/tmp/b'', Buffer ''x'')],
                    movedPathToOriginalPathMap = [], deletedOriginalPaths = []\<rparr>)
   \<and> written_not_deleted
        \<lparr>moveOperations = [], stagedPathToContentMap = [(''/tmp/b'', Buffer ''x'')],
         movedPathToOriginalPathMap = [], deletedOriginalPaths = []\<rparr>"
proof -
  let ?s = "\<lparr>moveOperations = [], stagedPathToContentMap = [],
      movedPathToOriginalPathMap = [], deletedOriginalPaths = [''/tmp/b'']\<rparr>"
  let ?s' = "\<lparr>moveOperations = [], stagedPathToContentMap = [(''/tmp/b'', Buffer ''x'')],
         movedPathToOriginalPathMap = [], deletedOriginalPaths = []\<rparr>"
  have i: "written_not_deleted ?s" by code_simp
  have w: "writeBufferSync (memfs ''/tmp'' test_vol) ?s ''/tmp/b'' ''x'' = Some (Inr ?s')"
    by code_simp
  from write_mkdir_rm_keep_written_not_deleted [OF i, of "memfs ''/tmp'' test_vol"] w
  have "written_not_deleted ?s'" by blast
  with i w show ?thesis by blast
qed

section \<open>Resolved paths as segments\<close>

lemma clean_segs_simps [simp]:
  "clean_segs [] = True" "clean_segs (x # xs) = (clean_seg x \<and> clean_segs xs)"
  "clean_segs (xs @ ys) = (clean_segs xs \<and> clean_segs ys)"
  by (auto simp: clean_segs_def)

lemma split_sep_plain: "CHR ''/'' \<notin> set x \<Longrightarrow> split_sep x = [x]"
  by (induction x) auto

lemma split_sep_app: "CHR ''/'' \<notin> set x \<Longrightarrow> split_sep (x @ CHR ''/'' # r) = x # split_sep r"
  by (induction x) auto

lemma split_sep_segs:
  "CHR ''/'' \<notin> set s \<Longrightarrow> \<forall>x \<in> set ss. CHR ''/'' \<notin> set x \<Longrightarrow>
     split_sep (s @ concat (map (\<lambda>s. CHR ''/'' # s) ss)) = s # ss"
  by (induction ss arbitrary: s) (simp_all add: split_sep_plain split_sep_app)

lemma split_sep_segs_slash:
  "CHR ''/'' \<notin> set s \<Longrightarrow> \<forall>x \<in> set ss. CHR ''/'' \<notin> set x \<Longrightarrow>
     split_sep (s @ concat (map (\<lambda>s. CHR ''/'' # s) ss) @ CHR ''/'' # r) = s # ss @ split_sep r"
  by (induction ss arbitrary: s) (simp_all add: split_sep_app)

lemma clean_no_slash: "clean_segs ss \<Longrightarrow> \<forall>x \<in> set ss. CHR ''/'' \<notin> set x"
  by (auto simp: clean_segs_def clean_seg_def list_all_iff)

lemma render_Nil [simp]: "render [] = ''/''"
  by (simp add: render_def)

lemma render_Cons: "render (s # ss) = CHR ''/'' # s @ concat (map (\<lambda>s. CHR ''/'' # s) ss)"
  by (simp add: render_def)

lemma split_sep_render:
  assumes "clean_segs ss"
  shows "split_sep (render ss) = [] # (if ss = [] then [[]] else ss)"
proof (cases ss)
  case Nil then show ?thesis by simp
next
  case (Cons a as)
  with assms clean_no_slash [OF assms] show ?thesis
    using split_sep_segs [of a as] by (simp add: render_Cons)
qed

lemma split_sep_render_slash:
  assumes "clean_segs ss"
  shows "split_sep (render ss @ ''/'') = [] # (if ss = [] then [[]] else ss) @ [[]]"
proof (cases ss)
  case Nil then show ?thesis by simp
next
  case (Cons a as)
  with assms clean_no_slash [OF assms] show ?thesis
    using split_sep_segs_slash [of a as "[]"] by (simp add: render_Cons)
qed

lemma normalizeSegs_clean:
  "\<forall>x \<in> set xs. x = [] \<or> clean_seg x \<Longrightarrow>
     normalizeSegs a acc xs = rev acc @ filter (\<lambda>x. x \<noteq> []) xs"
  by (induction xs arbitrary: acc) (auto simp: clean_seg_def)

lemma join_sep_render: "ss \<noteq> [] \<Longrightarrow> CHR ''/'' # join_sep ss = render ss"
  by (induction ss rule: join_sep.induct) (simp_all add: render_def)

lemma clean_filter: "clean_segs ss \<Longrightarrow> filter (\<lambda>x. x \<noteq> []) ss = ss"
  by (induction ss) (auto simp: clean_seg_def)

lemma render_hd: "render ss \<noteq> [] \<and> hd (render ss) = CHR ''/''"
  by (cases ss) (simp_all add: render_Cons)

lemma normalizeString_render_slash:
  assumes "clean_segs ss"
  shows "normalizeString (render ss @ ''/'') False = join_sep ss"
proof -
  have "\<forall>x \<in> set ([] # (if ss = [] then [[]] else ss) @ [[]]). x = [] \<or> clean_seg x"
    using assms by (auto simp: clean_segs_def list_all_iff)
  from normalizeSegs_clean [OF this, of False "[]"] assms
  show ?thesis
    by (auto simp: normalizeString_def split_sep_render_slash clean_filter)
qed

lemma path_resolve_render:
  assumes "clean_segs ss"
  shows "path_resolve pcwd [w, render ss] = render ss"
proof -
  have "resolve_args (rev [w, render ss] @ [pcwd]) [] = (render ss @ ''/'', True)"
    using render_hd [of ss] by simp
  moreover have "CHR ''/'' # normalizeString (render ss @ ''/'') False = render ss"
  proof (cases "ss = []")
    case True
    then show ?thesis by (simp add: normalizeString_def)
  next
    case False
    then show ?thesis
      using join_sep_render [of ss] by (simp add: normalizeString_render_slash [OF assms])
  qed
  ultimately show ?thesis
    by (simp add: path_resolve_def)
qed


lemma render_append:
  "ys \<noteq> [] \<Longrightarrow> render (xs @ ys) = (if xs = [] then [] else render xs) @ render ys"
  by (simp add: render_def)

lemma prefix_render: "prefix (render ws) (render (ws @ xs))"
proof (cases "xs = []")
  case True then show ?thesis by simp
next
  case False
  then show ?thesis
    using render_hd [of xs]
    by (cases "render xs") (auto simp: render_append)
qed

lemma render_snoc_noteq:
  assumes "clean_segs (xs @ [x])"
  shows "render (ws @ xs @ [x]) \<noteq> render ws"
proof -
  have "length (render (ws @ xs @ [x])) > length (render ws)"
  proof (cases "ws = []")
    case True
    have "length (render (xs @ [x])) \<ge> length (render [x])"
      using render_append [of "[x]" xs] by simp
    moreover have "length (render [x]) \<ge> 2"
      using assms by (cases x) (simp_all add: render_def clean_seg_def)
    ultimately show ?thesis using True by simp
  next
    case False
    have "render (ws @ xs @ [x]) = render ws @ render (xs @ [x])"
      using render_append [of "xs @ [x]" ws] False by simp
    then show ?thesis using render_hd [of "xs @ [x]"] by (cases "render (xs @ [x])") auto
  qed
  then show ?thesis by auto
qed

lemma path_dirname_render:
  assumes "clean_segs (ss @ [x])"
  shows "path_dirname (render (ss @ [x])) = render ss"
proof -
  from assms have x: "x \<noteq> []" "CHR ''/'' \<notin> set x"
    by (simp_all add: clean_seg_def)
  then have hx: "rev x \<noteq> []" "hd (rev x) \<noteq> CHR ''/''"
    by (simp_all add: hd_rev) (metis last_in_set)
  have d1: "dropWhile (\<lambda>c. c = CHR ''/'') (rev x @ r) = rev x @ r" for r
    using hx by (cases "rev x") auto
  have d2: "dropWhile (\<lambda>c. c \<noteq> CHR ''/'') (rev x @ r) = dropWhile (\<lambda>c. c \<noteq> CHR ''/'') r" for r
    by (rule dropWhile_append2) (use x in auto)
  show ?thesis
  proof (cases "ss = []")
    case True
    have "render [x] = CHR ''/'' # x" by (simp add: render_def)
    then show ?thesis
      using True d1 [of "[]"] d2 [of "[]"] by (simp add: path_dirname_def Let_def)
  next
    case False
    then obtain t where t: "render ss = CHR ''/'' # t"
      using render_hd [of ss] by (cases "render ss") auto
    have t2: "t \<noteq> []"
    proof -
      from False obtain a as where "ss = a # as" by (cases ss) auto
      moreover with assms have "a \<noteq> []" by (simp add: clean_seg_def)
      ultimately show ?thesis using t by (auto simp: render_Cons)
    qed
    have r: "render (ss @ [x]) = CHR ''/'' # t @ CHR ''/'' # x"
      using render_append [of "[x]" ss] False t by (simp add: render_def)
    have "dropWhile (\<lambda>c. c \<noteq> CHR ''/'') (dropWhile (\<lambda>c. c = CHR ''/'') (rev (t @ CHR ''/'' # x)))
            = CHR ''/'' # rev t"
      using d1 [of "CHR ''/'' # rev t"] d2 [of "CHR ''/'' # rev t"] by simp
    then show ?thesis
      using t t2 by (simp add: path_dirname_def Let_def r)
  qed
qed


lemma path_segments_render: "clean_segs ss \<Longrightarrow> path_segments (render ss) = ss"
  by (simp add: path_segments_def split_sep_render clean_filter)

lemma is_resolvedE:
  assumes "is_resolved k"
  obtains ks where "clean_segs ks" "k = render ks"
  using assms by (auto simp: is_resolved_def)

lemma is_resolved_render: "clean_segs ss \<Longrightarrow> is_resolved (render ss)"
  by (simp add: is_resolved_def path_segments_render)






section \<open>What path.resolve returns\<close>

lemma split_sep_no_slash: "x \<in> set (split_sep s) \<Longrightarrow> CHR ''/'' \<notin> set x"
proof (induction s arbitrary: x)
  case Nil
  then show ?case by simp
next
  case (Cons c cs)
  show ?case
  proof (cases "c = CHR ''/''")
    case True
    with Cons show ?thesis by auto
  next
    case False
    then show ?thesis
      using Cons by (cases "split_sep cs") auto
  qed
qed

lemma normalizeSegs_False_clean:
  "clean_segs acc \<Longrightarrow> \<forall>x \<in> set xs. CHR ''/'' \<notin> set x \<Longrightarrow>
     clean_segs (normalizeSegs False acc xs)"
proof (induction xs arbitrary: acc)
  case Nil
  then show ?case by (simp add: clean_segs_def)
next
  case (Cons x xs)
  then show ?case
    by (cases acc) (auto simp: clean_seg_def)
qed

lemma resolve_args_absolute:
  "\<exists>p \<in> set ps. p \<noteq> [] \<and> hd p = CHR ''/'' \<Longrightarrow> snd (resolve_args ps acc)"
  by (induction ps arbitrary: acc) auto

text \<open>
  The working directory of a process is absolute, and then every path that
  \<open>path.resolve\<close> returns is a resolved path in the sense of \<open>is_resolved\<close>.
\<close>

lemma path_resolve_is_resolved:
  assumes "pcwd \<noteq> []" "hd pcwd = CHR ''/''"
  shows "is_resolved (path_resolve pcwd args)"
proof -
  obtain str ab where r: "resolve_args (rev args @ [pcwd]) [] = (str, ab)"
    by (cases "resolve_args (rev args @ [pcwd]) []")
  from resolve_args_absolute [of "rev args @ [pcwd]" "[]"] assms r have ab by simp
  let ?segs = "normalizeSegs False [] (split_sep str)"
  have c: "clean_segs ?segs"
    by (rule normalizeSegs_False_clean) (auto dest: split_sep_no_slash)
  have "path_resolve pcwd args = CHR ''/'' # join_sep ?segs"
    using r \<open>ab\<close> by (simp add: path_resolve_def normalizeString_def)
  also have "\<dots> = render ?segs"
    by (cases "?segs = []") (simp_all add: join_sep_render)
  finally show ?thesis using c by (simp add: is_resolved_render)
qed

lemma resolvePath_is_resolved:
  assumes "path_isAbsolute (processCwd e)" "resolvePath e p = Inr rp"
  shows "is_resolved rp" "resolvePath e rp = Inr rp"
proof -
  from assms(1) have ab: "processCwd e \<noteq> []" "hd (processCwd e) = CHR ''/''"
    by (simp_all add: path_isAbsolute_def)
  from assms(2) have rp: "rp = path_resolve (processCwd e) [workingDir e, p]"
    and pre: "prefix (workingDir e) rp"
    by (auto simp: resolvePath_def Let_def split: if_splits)
  from path_resolve_is_resolved [OF ab] rp show r: "is_resolved rp" by simp
  then obtain segs where "clean_segs segs" "rp = render segs" by (rule is_resolvedE)
  with pre show "resolvePath e rp = Inr rp"
    by (simp add: resolvePath_def path_resolve_render)
qed


section \<open>Creating directories returns\<close>

text \<open>
  When the working directory is a resolved path and \<open>mkdirSync\<close> starts at the working
  directory or below it, each step of the loop moves one segment up and the loop ends at
  the working directory at the latest. The probes of the disk are then the only possible
  source of an error: the loop returns a state when the real file system answers for the
  path and for its ancestors below the working directory.
\<close>

lemma resolvePath_render:
  assumes "workingDir e = render ws" "clean_segs ws" "clean_segs xs"
  shows "resolvePath e (render (ws @ xs)) = Inr (render (ws @ xs))"
    "real_resolvePath e (render (ws @ xs)) = Inr (render (ws @ xs))"
  using assms prefix_render [of ws xs]
  by (simp_all add: resolvePath_def real_resolvePath_def path_resolve_render)

lemma existsSync_answers:
  assumes "workingDir e = render ws" "clean_segs ws" "clean_segs xs"
    "probe_answers e s (render (ws @ xs))"
  shows "\<exists>b. existsSync e s (render (ws @ xs)) = Inr b"
proof -
  note r = resolvePath_render [OF assms(1-3)]
  from assms(4) obtain b where "real_existsSync e (originalOf s (render (ws @ xs))) = Inr b"
    by (auto simp: probe_answers_def split: sum.splits)
  then show ?thesis by (auto simp: existsSync_resolved [OF r(1)])
qed

lemma probes_answer_snoc:
  "probes_answer e s ws (xs @ [x])
     = (probes_answer e s ws xs \<and> probe_answers e s (render (ws @ xs @ [x])))"
proof -
  have "tl (prefixes (xs @ [x])) = tl (prefixes xs) @ [xs @ [x]]"
    by (cases "prefixes xs") simp_all
  then show ?thesis by (simp add: probes_answer_def)
qed

lemma probe_answers_staged:
  "probe_answers e (s\<lparr>stagedPathToContentMap := m\<rparr>) = probe_answers e s"
  "probe_answers e (s\<lparr>deletedOriginalPaths := d\<rparr>) = probe_answers e s"
  by (rule ext, simp add: probe_answers_def originalOf_def)+

lemma probes_answer_staged:
  "probes_answer e (s\<lparr>stagedPathToContentMap := m\<rparr>) ws xs = probes_answer e s ws xs"
  "probes_answer e (s\<lparr>deletedOriginalPaths := d\<rparr>) ws xs = probes_answer e s ws xs"
  by (simp_all add: probes_answer_def probe_answers_staged)

lemma mkdir_loop_returns:
  assumes "workingDir e = render ws" "clean_segs ws"
  shows "clean_segs xs \<Longrightarrow> probes_answer e s ws xs
           \<Longrightarrow> \<exists>s'. mkdir_loop e s (render (ws @ xs)) = Some (Inr s')"
proof (induction xs arbitrary: s rule: rev_induct)
  case Nil
  then show ?case using assms(1) by (simp add: mkdir_loop.simps)
next
  case (snoc x xs)
  let ?d = "render (ws @ xs @ [x])"
  from snoc.prems(1) have cx: "clean_segs xs" "clean_segs (ws @ xs @ [x])"
    using assms(2) by simp_all
  from snoc.prems(2) have pa: "probes_answer e s ws xs" "probe_answers e s ?d"
    by (simp_all add: probes_answer_snoc)
  have ne: "?d \<noteq> workingDir e"
    using render_snoc_noteq [of xs x ws] snoc.prems(1) assms(1) by simp
  have dn: "path_dirname ?d = render (ws @ xs)"
    using path_dirname_render [of "ws @ xs" x] cx(2) by simp
  from existsSync_answers [OF assms(1,2) snoc.prems(1) pa(2)]
  obtain b where b: "existsSync e s ?d = Inr b" by blast
  show ?case
  proof (cases b)
    case True
    with ne b show ?thesis by (subst mkdir_loop.simps) simp
  next
    case False
    let ?s1 = "s\<lparr>stagedPathToContentMap :=
                   AList.update ?d STAGED_FILE_SYSTEM_DIRECTORY_SYMBOL (stagedPathToContentMap s)\<rparr>"
    have "probes_answer e ?s1 ws xs"
      using pa(1) by (simp add: probes_answer_staged)
    from snoc.IH [OF cx(1) this] obtain s' where
      "mkdir_loop e ?s1 (render (ws @ xs)) = Some (Inr s')" by blast
    with ne b False dn show ?thesis by (subst mkdir_loop.simps) simp
  qed
qed

text \<open>
  What a returning loop has done at the path it started from: nothing when that is the
  working directory or a path that exists, and a directory marker otherwise.
\<close>

lemma mkdir_loop_at_root:
  "d = workingDir e \<Longrightarrow> mkdir_loop e s d = Some (Inr s)"
  by (subst mkdir_loop.simps) simp

lemma mkdir_loop_marks_missing:
  assumes "d \<noteq> workingDir e" "existsSync e s d = Inr False" "mkdir_loop e s d = Some (Inr s')"
  shows "map_of (stagedPathToContentMap s') d = Some STAGED_FILE_SYSTEM_DIRECTORY_SYMBOL"
proof -
  let ?s1 = "s\<lparr>stagedPathToContentMap :=
                 AList.update d STAGED_FILE_SYSTEM_DIRECTORY_SYMBOL (stagedPathToContentMap s)\<rparr>"
  from assms have "mkdir_loop e ?s1 (path_dirname d) = Some (Inr s')"
    by (subst (asm) mkdir_loop.simps) simp
  from mkdir_loop_markers [OF this, of d] show ?thesis
    by (simp add: update_conv')
qed


section \<open>Deleting, then creating a directory\<close>

text \<open>
  Of the mutations, only the writes take a path out of the deleted original paths:
  \<open>mkdir\<close> and \<open>move\<close> leave them as they are and \<open>rm\<close> adds one.
\<close>

lemma deleted_paths_kept:
  "mkdirSync e s p = Some (Inr s') \<Longrightarrow> deletedOriginalPaths s' = deletedOriginalPaths s"
  "moveSync e s p q = Inr s' \<Longrightarrow> deletedOriginalPaths s' = deletedOriginalPaths s"
  "rmSync e s p = Inr s' \<Longrightarrow> set (deletedOriginalPaths s) \<subseteq> set (deletedOriginalPaths s')"
proof -
  show "deletedOriginalPaths s' = deletedOriginalPaths s" if "mkdirSync e s p = Some (Inr s')"
  proof -
    from that obtain d where "mkdir_loop e s d = Some (Inr s')"
      by (auto simp: mkdirSync_def split: sum.splits)
    then show ?thesis by (rule mkdir_loop_fields)
  qed
  show "deletedOriginalPaths s' = deletedOriginalPaths s" if "moveSync e s p q = Inr s'"
    using that
    by (auto simp: moveSync_def updateNestedPathMappings_def Let_def
          split: sum.splits bool.splits)
  show "set (deletedOriginalPaths s) \<subseteq> set (deletedOriginalPaths s')"
    if "rmSync e s p = Inr s'"
    using that
    by (auto simp: rmSync_def set_set_add split: sum.splits)
qed

text \<open>
  The claim C10 says that \<open>mkdir(p)\<close> after \<open>rm(p)\<close> inserts a directory marker for
  \<open>p\<close>. When \<open>p\<close> is the working directory, a directory of the real disk, the loop of
  \<open>mkdirSync\<close> stops before its first step: \<open>mkdir\<close> returns the state that \<open>rm\<close> left,
  which has nothing staged at \<open>p\<close>, while \<open>exists(p)\<close> is \<open>false\<close> as the claim says.
\<close>

theorem rm_then_mkdir_of_working_directory_stages_nothing:
  "real_existsSync (memfs ''/tmp'' test_vol) ''/tmp'' = Inr True
   \<and> rmSync (memfs ''/tmp'' test_vol) new_staged_fs ''/tmp''
       = Inr \<lparr>moveOperations = [], stagedPathToContentMap = [],
              movedPathToOriginalPathMap = [], deletedOriginalPaths = [''/tmp'']\<rparr>
   \<and> mkdirSync (memfs ''/tmp'' test_vol)
        \<lparr>moveOperations = [], stagedPathToContentMap = [],
         movedPathToOriginalPathMap = [], deletedOriginalPaths = [''/tmp'']\<rparr>
        ''/tmp''
       = Some (Inr \<lparr>moveOperations = [], stagedPathToContentMap = [],
                    movedPathToOriginalPathMap = [], deletedOriginalPaths = [''/tmp'']\<rparr>)
   \<and> map_of (stagedPathToContentMap
               \<lparr>moveOperations = [], stagedPathToContentMap = [],
                movedPathToOriginalPathMap = [], deletedOriginalPaths = [''/tmp'']\<rparr>)
        ''/tmp'' = None
   \<and> existsSync (memfs ''/tmp'' test_vol)
        \<lparr>moveOperations = [], stagedPathToContentMap = [],
         movedPathToOriginalPathMap = [], deletedOriginalPaths = [''/tmp'']\<rparr>
        ''/tmp'' = Inr False"
  by code_simp

text \<open>
  Claim C10, amended. For a path \<open>p\<close> that resolves inside the working directory to
  \<open>rp\<close> (a path of the real disk in particular), \<open>rm(p)\<close> returns, and whenever
  \<open>mkdir(p)\<close> returns after it, \<open>exists(p)\<close> is \<open>false\<close>: \<open>mkdir\<close> leaves the deleted
  original paths as \<open>rm\<close> left them, so the original path of \<open>p\<close> is still among them,
  and \<open>exists\<close> looks there first. \<open>mkdir\<close> has then put a directory marker at \<open>rp\<close>
  when \<open>rp\<close> is not the working directory (the working directory of the process being
  absolute, so that \<open>rp\<close> resolves to itself), and has staged nothing when it is.
  \<open>mkdir(p)\<close> does return when the working directory is a resolved path, \<open>rp\<close> is that
  path followed by segments \<open>xs\<close>, and the real file system answers the existence
  probes for \<open>rp\<close> and its ancestors below the working directory.
\<close>

theorem rm_then_mkdir_exists_false:
  assumes "resolvePath e p = Inr rp"
  shows "\<exists>s1. rmSync e s p = Inr s1
     \<and> (\<forall>s2. mkdirSync e s1 p = Some (Inr s2) \<longrightarrow>
            existsSync e s2 p = Inr False
            \<and> deletedOriginalPaths s2 = deletedOriginalPaths s1
            \<and> originalOf s2 rp \<in> set (deletedOriginalPaths s2)
            \<and> (rp \<noteq> workingDir e \<and> path_isAbsolute (processCwd e) \<longrightarrow>
                 map_of (stagedPathToContentMap s2) rp = Some STAGED_FILE_SYSTEM_DIRECTORY_SYMBOL)
            \<and> (rp = workingDir e \<longrightarrow> s2 = s1 \<and> map_of (stagedPathToContentMap s2) rp = None))
     \<and> (\<forall>ws xs. workingDir e = render ws \<and> clean_segs ws \<and> clean_segs xs
            \<and> rp = render (ws @ xs) \<and> probes_answer e s ws xs \<longrightarrow>
            (\<exists>s2. mkdirSync e s1 p = Some (Inr s2)))"
proof -
  let ?s1 = "s\<lparr>stagedPathToContentMap := AList.delete rp (stagedPathToContentMap s),
               deletedOriginalPaths := set_add (originalOf s rp) (deletedOriginalPaths s)\<rparr>"
  have rm: "rmSync e s p = Inr ?s1" by (rule rmSync_result [OF assms])
  have o1: "originalOf ?s1 rp = originalOf s rp" by (simp add: originalOf_def)
  have after: "existsSync e s2 p = Inr False
            \<and> deletedOriginalPaths s2 = deletedOriginalPaths ?s1
            \<and> originalOf s2 rp \<in> set (deletedOriginalPaths s2)
            \<and> (rp \<noteq> workingDir e \<and> path_isAbsolute (processCwd e) \<longrightarrow>
                 map_of (stagedPathToContentMap s2) rp = Some STAGED_FILE_SYSTEM_DIRECTORY_SYMBOL)
            \<and> (rp = workingDir e \<longrightarrow> s2 = ?s1 \<and> map_of (stagedPathToContentMap s2) rp = None)"
    if "mkdirSync e ?s1 p = Some (Inr s2)" for s2
  proof -
    from that have lp: "mkdir_loop e ?s1 rp = Some (Inr s2)"
      by (simp add: mkdirSync_def assms)
    note f = mkdir_loop_fields [OF lp]
    have o: "originalOf s2 rp = originalOf s rp" by (simp add: originalOf_def f)
    have del: "originalOf s2 rp \<in> set (deletedOriginalPaths s2)"
      by (simp add: o f set_set_add)
    have ex: "existsSync e s2 p = Inr False"
      using del by (simp add: existsSync_resolved [OF assms])
    have marker: "rp \<noteq> workingDir e \<and> path_isAbsolute (processCwd e) \<longrightarrow>
                 map_of (stagedPathToContentMap s2) rp = Some STAGED_FILE_SYSTEM_DIRECTORY_SYMBOL"
    proof
      assume h: "rp \<noteq> workingDir e \<and> path_isAbsolute (processCwd e)"
      then have ne: "rp \<noteq> workingDir e" and ab: "path_isAbsolute (processCwd e)" by simp_all
      note idem = resolvePath_is_resolved(2) [OF ab assms]
      have "existsSync e ?s1 rp = Inr False"
        by (simp add: existsSync_resolved [OF idem] o1 set_set_add)
      from mkdir_loop_marks_missing [OF ne this lp]
      show "map_of (stagedPathToContentMap s2) rp = Some STAGED_FILE_SYSTEM_DIRECTORY_SYMBOL" .
    qed
    have unstaged: "rp = workingDir e \<longrightarrow>
                     s2 = ?s1 \<and> map_of (stagedPathToContentMap s2) rp = None"
    proof
      assume "rp = workingDir e"
      from mkdir_loop_at_root [OF this, of ?s1] lp have "s2 = ?s1" by simp
      then show "s2 = ?s1 \<and> map_of (stagedPathToContentMap s2) rp = None"
        by (simp add: delete_conv')
    qed
    from ex f(3) del marker unstaged show ?thesis by (intro conjI) assumption+
  qed
  have returns: "\<exists>s2. mkdirSync e ?s1 p = Some (Inr s2)"
    if "workingDir e = render ws \<and> clean_segs ws \<and> clean_segs xs
            \<and> rp = render (ws @ xs) \<and> probes_answer e s ws xs" for ws xs
  proof -
    from that have h: "workingDir e = render ws" "clean_segs ws" "clean_segs xs"
      and rp: "rp = render (ws @ xs)" and pa: "probes_answer e s ws xs"
      by simp_all
    have "probes_answer e ?s1 ws xs"
      using pa by (simp add: probes_answer_staged)
    from mkdir_loop_returns [OF h(1,2,3) this] show ?thesis
      by (simp add: mkdirSync_def assms rp)
  qed
  from rm after returns show ?thesis by blast
qed

theorem rm_then_mkdir_exists_false_witness:
  "resolvePath (memfs ''/tmp'' test_vol) ''/tmp/existing-dir''
       = Inr (render ([''tmp''] @ [''existing-dir'']))
   \<and> real_existsSync (memfs ''/tmp'' test_vol) ''/tmp/existing-dir'' = Inr True
   \<and> render ([''tmp''] @ [''existing-dir'']) \<noteq> workingDir (memfs ''/tmp'' test_vol)
   \<and> path_isAbsolute (processCwd (memfs ''/tmp'' test_vol))
   \<and> workingDir (memfs ''/tmp'' test_vol) = render [''tmp'']
   \<and> clean_segs [''tmp''] \<and> clean_segs [''existing-dir'']
   \<and> probes_answer (memfs ''/tmp'' test_vol) new_staged_fs [''tmp''] [''existing-dir'']
   \<and> (\<exists>s1 s2. rmSync (memfs ''/tmp'' test_vol) new_staged_fs ''/tmp/existing-dir'' = Inr s1
         \<and> mkdirSync (memfs ''/tmp'' test_vol) s1 ''/tmp/existing-dir'' = Some (Inr s2)
         \<and> existsSync (memfs ''/tmp'' test_vol) s2 ''/tmp/existing-dir'' = Inr False
         \<and> deletedOriginalPaths s2 = deletedOriginalPaths s1
         \<and> map_of (stagedPathToContentMap s2) (render ([''tmp''] @ [''existing-dir'']))
             = Some STAGED_FILE_SYSTEM_DIRECTORY_SYMBOL)
   \<and> resolvePath (memfs ''/tmp'' test_vol) ''/tmp'' = Inr (render ([''tmp''] @ []))
   \<and> render ([''tmp''] @ []) = workingDir (memfs ''/tmp'' test_vol)
   \<and> probes_answer (memfs ''/tmp'' test_vol) new_staged_fs [''tmp''] []
   \<and> (\<exists>s1. rmSync (memfs ''/tmp'' test_vol) new_staged_fs ''/tmp'' = Inr s1
         \<and> mkdirSync (memfs ''/tmp'' test_vol) s1 ''/tmp'' = Some (Inr s1)
         \<and> existsSync (memfs ''/tmp'' test_vol) s1 ''/tmp'' = Inr False
         \<and> map_of (stagedPathToContentMap s1) (render ([''tmp''] @ [])) = None)"
proof -
  let ?e = "memfs ''/tmp'' test_vol"
  let ?rp = "render ([''tmp''] @ [''existing-dir''])"
  have r: "resolvePath ?e ''/tmp/existing-dir'' = Inr ?rp" by code_simp
  have a: "real_existsSync ?e ''/tmp/existing-dir'' = Inr True" by code_simp
  have ne: "?rp \<noteq> workingDir ?e" by code_simp
  have ab: "path_isAbsolute (processCwd ?e)" by code_simp
  have w: "workingDir ?e = render [''tmp'']" by code_simp
  have c1: "clean_segs [''tmp'']" by code_simp
  have c2: "clean_segs [''existing-dir'']" by code_simp
  have pa: "probes_answer ?e new_staged_fs [''tmp''] [''existing-dir'']" by code_simp
  from rm_then_mkdir_exists_false [OF r, of new_staged_fs] obtain s1 where
    rm: "rmSync ?e new_staged_fs ''/tmp/existing-dir'' = Inr s1" and
    after: "\<And>s2. mkdirSync ?e s1 ''/tmp/existing-dir'' = Some (Inr s2) \<Longrightarrow>
            existsSync ?e s2 ''/tmp/existing-dir'' = Inr False
            \<and> deletedOriginalPaths s2 = deletedOriginalPaths s1
            \<and> (?rp \<noteq> workingDir ?e \<and> path_isAbsolute (processCwd ?e) \<longrightarrow>
                 map_of (stagedPathToContentMap s2) ?rp = Some STAGED_FILE_SYSTEM_DIRECTORY_SYMBOL)" and
    returns: "\<And>ws xs. workingDir ?e = render ws \<and> clean_segs ws \<and> clean_segs xs
            \<and> ?rp = render (ws @ xs) \<and> probes_answer ?e new_staged_fs ws xs \<Longrightarrow>
            (\<exists>s2. mkdirSync ?e s1 ''/tmp/existing-dir'' = Some (Inr s2))"
    by blast
  from returns [of "[''tmp'']" "[''existing-dir'']"] w c1 c2 pa obtain s2 where
    mk: "mkdirSync ?e s1 ''/tmp/existing-dir'' = Some (Inr s2)"
    by auto
  from after [OF mk] ne ab have
    "existsSync ?e s2 ''/tmp/existing-dir'' = Inr False"
    "deletedOriginalPaths s2 = deletedOriginalPaths s1"
    "map_of (stagedPathToContentMap s2) ?rp = Some STAGED_FILE_SYSTEM_DIRECTORY_SYMBOL"
    by blast+
  with rm mk have first:
    "\<exists>s1 s2. rmSync ?e new_staged_fs ''/tmp/existing-dir'' = Inr s1
         \<and> mkdirSync ?e s1 ''/tmp/existing-dir'' = Some (Inr s2)
         \<and> existsSync ?e s2 ''/tmp/existing-dir'' = Inr False
         \<and> deletedOriginalPaths s2 = deletedOriginalPaths s1
         \<and> map_of (stagedPathToContentMap s2) ?rp = Some STAGED_FILE_SYSTEM_DIRECTORY_SYMBOL"
    by blast
  let ?wd = "render ([''tmp''] @ [])"
  have r0: "resolvePath ?e ''/tmp'' = Inr ?wd" by code_simp
  have eq: "?wd = workingDir ?e" by code_simp
  have c0: "clean_segs []" by code_simp
  have pa0: "probes_answer ?e new_staged_fs [''tmp''] []" by code_simp
  from rm_then_mkdir_exists_false [OF r0, of new_staged_fs] obtain t1 where
    rm0: "rmSync ?e new_staged_fs ''/tmp'' = Inr t1" and
    after0: "\<And>t2. mkdirSync ?e t1 ''/tmp'' = Some (Inr t2) \<Longrightarrow>
            existsSync ?e t2 ''/tmp'' = Inr False
            \<and> (?wd = workingDir ?e \<longrightarrow> t2 = t1 \<and> map_of (stagedPathToContentMap t2) ?wd = None)" and
    returns0: "\<And>ws xs. workingDir ?e = render ws \<and> clean_segs ws \<and> clean_segs xs
            \<and> ?wd = render (ws @ xs) \<and> probes_answer ?e new_staged_fs ws xs \<Longrightarrow>
            (\<exists>t2. mkdirSync ?e t1 ''/tmp'' = Some (Inr t2))"
    by blast
  from returns0 [of "[''tmp'']" "[]"] w c1 c0 pa0 obtain t2 where
    mk0: "mkdirSync ?e t1 ''/tmp'' = Some (Inr t2)"
    by auto
  from after0 [OF mk0] eq have "existsSync ?e t2 ''/tmp'' = Inr False" "t2 = t1"
    "map_of (stagedPathToContentMap t2) ?wd = None"
    by blast+
  with rm0 mk0 have second:
    "\<exists>s1. rmSync ?e new_staged_fs ''/tmp'' = Inr s1
         \<and> mkdirSync ?e s1 ''/tmp'' = Some (Inr s1)
         \<and> existsSync ?e s1 ''/tmp'' = Inr False
         \<and> map_of (stagedPathToContentMap s1) ?wd = None"
    by blast
  from r a ne ab w c1 c2 pa first r0 eq pa0 second show ?thesis by (intro conjI) assumption+
qed

section \<open>UTF-8: decoding what was encoded\<close>









section \<open>Writing, then reading\<close>








section \<open>Renaming the keys of a map\<close>

























end
